theory Spec2Isabelle
  imports Complex_Main "HOL-Library.Word" "HOL-Library.Sublist" "HOL-Library.Monad_Syntax"
begin

unbundle bit_operations_syntax

section \<open>Data model\<close>

text \<open>
  Go's \<open>[]byte\<close> is a list of 8-bit words. A Go \<open>string\<close> is an immutable byte
  sequence as well; it is modelled as an Isabelle \<open>string\<close>, whose characters are exactly
  the 256 byte values, so that the literals of the source can be written as they are.
  The conversion \<open>string(data)\<close> copies the bytes one by one.
\<close>

type_synonym byte = "8 word"

definition char_of_byte :: "byte \<Rightarrow> char" where
  "char_of_byte b = char_of (unat b)"

definition string_of_bytes :: "byte list \<Rightarrow> string" where
  "string_of_bytes data = map char_of_byte data"

text \<open>
  The request of \<open>type.go\<close> has four fields; the request of \<open>main.go\<close> has the same four
  and \<open>PersistWindow\<close> after them, so it is the extension of the former record.
\<close>

record Request_type =
  Command :: string
  Type :: string
  Headless :: bool
  Verbose :: bool

record Request = Request_type +
  PersistWindow :: bool

text \<open>Both files declare the same \<open>Response\<close>. \<open>Duration\<close> is an \<open>int64\<close> count of milliseconds.\<close>

record Response =
  Output :: string
  Error :: string
  Duration :: int
  Debug :: string

text \<open>
  The part of \<open>exec.Cmd\<close> the program sets: the argument vector (the program name first) and
  the process attributes, \<open>nil\<close> until assigned. A \<open>syscall.SysProcAttr\<close> literal leaves the
  fields it does not name at their zero value.
\<close>

record SysProcAttr =
  HideWindow :: bool
  CreationFlags :: "32 word"

record Cmd =
  Args :: "string list"
  Attr :: "SysProcAttr option"

definition CREATE_NEW_CONSOLE :: "32 word" where
  "CREATE_NEW_CONSOLE = 0x00000010"

definition exec_Command :: "string \<Rightarrow> string list \<Rightarrow> Cmd" where
  "exec_Command name arg = \<lparr>Args = name # arg, Attr = None\<rparr>"

text \<open>
  What one call of \<open>executeCommand\<close> reads from its surroundings: the host system
  (\<open>runtime.GOOS\<close>), the result of running a prepared command (\<open>cmd.CombinedOutput()\<close>: the
  captured bytes and the error, \<open>None\<close> for \<open>nil\<close>, \<open>Some\<close> of the text of \<open>err.Error()\<close>
  otherwise), and the elapsed time \<open>time.Since(start).Milliseconds()\<close>.
\<close>

record Env =
  GOOS :: string
  CombinedOutput :: "Cmd \<Rightarrow> byte list \<times> string option"
  Milliseconds :: int

section \<open>Formatting verbs of \<open>fmt.Sprintf\<close>\<close>

text \<open>\<open>%t\<close> on a bool, \<open>%v\<close> on a \<open>[]string\<close> and \<open>%d\<close> on an integer; \<open>%s\<close> copies the string.\<close>

definition fmt_t :: "bool \<Rightarrow> string" where
  "fmt_t b = (if b then ''true'' else ''false'')"

fun join_space :: "string list \<Rightarrow> string" where
  "join_space [] = []"
| "join_space [x] = x"
| "join_space (x # y # ys) = x @ '' '' @ join_space (y # ys)"

definition fmt_v :: "string list \<Rightarrow> string" where
  "fmt_v xs = ''['' @ join_space xs @ '']''"

fun digits :: "nat \<Rightarrow> string" where
  "digits n = (if n < 10 then [char_of (48 + n)] else digits (n div 10) @ [char_of (48 + n mod 10)])"

declare digits.simps [simp del]

definition fmt_d :: "int \<Rightarrow> string" where
  "fmt_d i = (if i < 0 then CHR ''-'' # digits (nat (- i)) else digits (nat i))"

section \<open>The dispatcher\<close>

text \<open>
  Lines 63 to 127 of \<open>main.go\<close>: the header of the trace, the choice of the interpreter, the
  window mode and the trace of the argument vector. The \<open>strings.Builder\<close> is threaded
  through as the text written so far; \<open>WriteString\<close> appends.
\<close>

definition dispatch :: "string \<Rightarrow> Request \<Rightarrow> Cmd \<times> string" where
  "dispatch goos req =
    (let debugInfo = [];
         debugInfo =
           (if Verbose req
            then debugInfo @ (''Executing command: '' @ Command req @ ''\<newline>'')
                   @ (''Type: '' @ Type req @ '', Headless: '' @ fmt_t (Headless req)
                        @ '', PersistWindow: '' @ fmt_t (PersistWindow req) @ ''\<newline>'')
            else debugInfo);
         cmd =
           (if Type req = ''powershell'' \<or> Type req = ''ps''
            then exec_Command ''powershell'' [''-Command'', Command req]
            else if Type req = ''wsl''
            then exec_Command ''wsl'' [''--'', ''bash'', ''-c'', Command req]
            else exec_Command ''cmd'' [''/C'', Command req]);
         (cmd, debugInfo) =
           (if Headless req
            then (cmd\<lparr>Attr := Some \<lparr>HideWindow = True, CreationFlags = 0\<rparr>\<rparr>,
                  if Verbose req
                  then debugInfo @ ''Running in headless mode (window hidden)\<newline>''
                  else debugInfo)
            else
              (let cmd =
                 (if goos = ''windows''
                  then
                    (let cmd =
                       (if Type req = ''powershell'' \<or> Type req = ''ps''
                        then exec_Command ''powershell'' [''-NoExit'', ''-Command'', Command req]
                        else if Type req = ''wsl''
                        then exec_Command ''cmd''
                               [''/C'', ''start'', ''wsl'', ''--'', ''bash'', ''-c'',
                                Command req @ ''; read -p 'Press Enter to close...'' @ [CHR 0x27]]
                        else exec_Command ''cmd'' [''/C'', ''start'', ''cmd'', ''/K'', Command req])
                     in cmd\<lparr>Attr := Some \<lparr>HideWindow = False,
                                          CreationFlags = CREATE_NEW_CONSOLE\<rparr>\<rparr>)
                  else
                    (let cmd =
                       (if Type req = ''powershell'' \<or> Type req = ''ps''
                        then exec_Command ''pwsh'' [''-Command'', Command req]
                        else exec_Command ''bash'' [''-c'', Command req])
                     in cmd\<lparr>Attr := Some \<lparr>HideWindow = False, CreationFlags = 0\<rparr>\<rparr>))
               in (cmd,
                   if Verbose req
                   then debugInfo @ ''Running in headed mode (new window created)\<newline>''
                   else debugInfo)));
         debugInfo =
           (if Verbose req
            then debugInfo @ (''Command args: '' @ fmt_v (Args cmd) @ ''\<newline>'')
            else debugInfo)
     in (cmd, debugInfo))"

text \<open>
  Lines 61 to 125 of \<open>type.go\<close>: the same dispatcher, whose trace header has no
  \<open>PersistWindow\<close> entry.
\<close>

definition dispatch_type :: "string \<Rightarrow> Request_type \<Rightarrow> Cmd \<times> string" where
  "dispatch_type goos req =
    (let debugInfo = [];
         debugInfo =
           (if Verbose req
            then debugInfo @ (''Executing command: '' @ Command req @ ''\<newline>'')
                   @ (''Type: '' @ Type req @ '', Headless: '' @ fmt_t (Headless req)
                        @ ''\<newline>'')
            else debugInfo);
         cmd =
           (if Type req = ''powershell'' \<or> Type req = ''ps''
            then exec_Command ''powershell'' [''-Command'', Command req]
            else if Type req = ''wsl''
            then exec_Command ''wsl'' [''--'', ''bash'', ''-c'', Command req]
            else exec_Command ''cmd'' [''/C'', Command req]);
         (cmd, debugInfo) =
           (if Headless req
            then (cmd\<lparr>Attr := Some \<lparr>HideWindow = True, CreationFlags = 0\<rparr>\<rparr>,
                  if Verbose req
                  then debugInfo @ ''Running in headless mode (window hidden)\<newline>''
                  else debugInfo)
            else
              (let cmd =
                 (if goos = ''windows''
                  then
                    (let cmd =
                       (if Type req = ''powershell'' \<or> Type req = ''ps''
                        then exec_Command ''powershell'' [''-NoExit'', ''-Command'', Command req]
                        else if Type req = ''wsl''
                        then exec_Command ''cmd''
                               [''/C'', ''start'', ''wsl'', ''--'', ''bash'', ''-c'',
                                Command req @ ''; read -p 'Press Enter to close...'' @ [CHR 0x27]]
                        else exec_Command ''cmd'' [''/C'', ''start'', ''cmd'', ''/K'', Command req])
                     in cmd\<lparr>Attr := Some \<lparr>HideWindow = False,
                                          CreationFlags = CREATE_NEW_CONSOLE\<rparr>\<rparr>)
                  else
                    (let cmd =
                       (if Type req = ''powershell'' \<or> Type req = ''ps''
                        then exec_Command ''pwsh'' [''-Command'', Command req]
                        else exec_Command ''bash'' [''-c'', Command req])
                     in cmd\<lparr>Attr := Some \<lparr>HideWindow = False, CreationFlags = 0\<rparr>\<rparr>))
               in (cmd,
                   if Verbose req
                   then debugInfo @ ''Running in headed mode (new window created)\<newline>''
                   else debugInfo)));
         debugInfo =
           (if Verbose req
            then debugInfo @ (''Command args: '' @ fmt_v (Args cmd) @ ''\<newline>'')
            else debugInfo)
     in (cmd, debugInfo))"

section \<open>Run-time checks\<close>

text \<open>
  An index expression \<open>data[i]\<close>, an indexed assignment and a slice expression \<open>data[start:]\<close>
  panic when out of range. In the model a panic is the value \<open>None\<close>, and every function
  that indexes or slices returns an option.
\<close>

definition elem :: "'a list \<Rightarrow> nat \<Rightarrow> 'a option" where
  "elem xs i = (if i < length xs then Some (xs ! i) else None)"

definition store :: "'a list \<Rightarrow> nat \<Rightarrow> 'a \<Rightarrow> 'a list option" where
  "store xs i v = (if i < length xs then Some (xs[i := v]) else None)"

definition slice_from :: "'a list \<Rightarrow> nat \<Rightarrow> 'a list option" where
  "slice_from xs start = (if start \<le> length xs then Some (drop start xs) else None)"

section \<open>Values of type \<open>float64\<close>\<close>

text \<open>
  The only floating-point expression of the program is
  \<open>float64(nullCount)/float64(len(data)/2) > 0.3\<close>. Its operands are non-negative, so a
  \<open>float64\<close> is modelled by the rational number it denotes, and each operation (the
  conversion of an integer, the division, the constant \<open>0.3\<close>) is the exact result rounded
  to the nearest number with a 53-bit significand, ties to the even significand, as
  IEEE 754 prescribes. Quotients of 64-bit integers are far from the overflow and the
  subnormal range, which are therefore left out.

  \<open>rne n d\<close> is the integer nearest to \<open>n / d\<close>, ties to even. \<open>shift_up p q\<close> is the least
  \<open>k\<close> with \<open>q \<le> p * 2 ^ k\<close> and \<open>shift_down p q\<close> the greatest \<open>j\<close> with \<open>q * 2 ^ j \<le> p\<close>:
  they place the quotient \<open>p / q\<close> in its binade.
\<close>

definition rne :: "nat \<Rightarrow> nat \<Rightarrow> nat" where
  "rne n d =
    (let q = n div d; r = n mod d
     in if 2 * r < d then q else if d < 2 * r then q + 1 else if even q then q else q + 1)"

function shift_up :: "nat \<Rightarrow> nat \<Rightarrow> nat" where
  "shift_up p q = (if p = 0 \<or> q \<le> p then 0 else Suc (shift_up (2 * p) q))"
  by pat_completeness auto
termination
  by (relation "measure (\<lambda>(p, q). q - p)") auto

function shift_down :: "nat \<Rightarrow> nat \<Rightarrow> nat" where
  "shift_down p q = (if q = 0 \<or> p < 2 * q then 0 else Suc (shift_down p (2 * q)))"
  by pat_completeness auto
termination
  by (relation "measure (\<lambda>(p, q). p - q)") auto

declare shift_up.simps [simp del] shift_down.simps [simp del]

definition round53 :: "nat \<Rightarrow> nat \<Rightarrow> rat" where
  "round53 p q =
    (if p < q
     then (let k = shift_up p q in of_nat (rne (p * 2 ^ (k + 52)) q) / 2 ^ (k + 52))
     else (let j = shift_down p q in of_nat (rne (p * 2 ^ 52) (q * 2 ^ j)) * 2 ^ j / 2 ^ 52))"

definition float64 :: "rat \<Rightarrow> rat" where
  "float64 x =
    (case quotient_of x of (p, q) \<Rightarrow> if p \<le> 0 then 0 else round53 (nat p) (nat q))"

section \<open>The output normalizer\<close>

subsection \<open>\<open>isUTF16\<close>\<close>

text \<open>
  The loop \<open>for i := 1; i < len(data); i += 2\<close> of lines 192 to 196, with its counter.
\<close>

function count_null :: "byte list \<Rightarrow> nat \<Rightarrow> nat \<Rightarrow> nat option" where
  "count_null data i nullCount =
    (if i < length data
     then do {
       b \<leftarrow> elem data i;
       count_null data (i + 2) (if b = 0 then nullCount + 1 else nullCount)
     }
     else Some nullCount)"
  by pat_completeness auto
termination
  by (relation "measure (\<lambda>(data, i, nullCount). length data - i)") auto

declare count_null.simps [simp del]

text \<open>
  Lines 175 to 202. The two tests of the byte-order mark return early; the heuristic is
  reached only when both fail.
\<close>

definition isUTF16 :: "byte list \<Rightarrow> bool option" where
  "isUTF16 data = do {
     le \<leftarrow> (if 2 \<le> length data
            then do { b0 \<leftarrow> elem data 0; b1 \<leftarrow> elem data 1; Some (b0 = 0xFF \<and> b1 = 0xFE) }
            else Some False);
     if le then Some True
     else do {
       be \<leftarrow> (if 2 \<le> length data
              then do { b0 \<leftarrow> elem data 0; b1 \<leftarrow> elem data 1; Some (b0 = 0xFE \<and> b1 = 0xFF) }
              else Some False);
       if be then Some True
       else if length data mod 2 = 0 \<and> 10 < length data
       then do {
         nullCount \<leftarrow> count_null data 1 0;
         Some (float64 (3 / 10)
                 < float64 (float64 (of_nat nullCount) / float64 (of_nat (length data div 2))))
       }
       else Some False
     }
   }"

subsection \<open>The library functions \<open>utf16.Decode\<close> and \<open>string([]rune)\<close>\<close>

text \<open>
  \<open>unicode/utf16\<close> and the conversion of a rune slice to a string belong to Go's standard
  library; they are modelled from its definition. A rune is an \<open>int32\<close>; the values that
  occur are code points, far from its bounds, so runes are integers here.
  \<open>DecodeRune\<close> joins a surrogate pair, \<open>utf16_Decode\<close> walks the code units and puts
  \<open>U+FFFD\<close> for every surrogate that is not part of a pair.
\<close>

definition replacementChar :: int where
  "replacementChar = 0xFFFD"

definition DecodeRune :: "int \<Rightarrow> int \<Rightarrow> int" where
  "DecodeRune r1 r2 =
    (if 0xd800 \<le> r1 \<and> r1 < 0xdc00 \<and> 0xdc00 \<le> r2 \<and> r2 < 0xe000
     then (push_bit 10 (r1 - 0xd800) OR (r2 - 0xdc00)) + 0x10000
     else replacementChar)"

fun utf16_Decode :: "16 word list \<Rightarrow> int list" where
  "utf16_Decode [] = []"
| "utf16_Decode [r] = [if r < 0xd800 \<or> 0xe000 \<le> r then uint r else replacementChar]"
| "utf16_Decode (r # r2 # s) =
    (if r < 0xd800 \<or> 0xe000 \<le> r then uint r # utf16_Decode (r2 # s)
     else if 0xd800 \<le> r \<and> r < 0xdc00 \<and> 0xdc00 \<le> r2 \<and> r2 < 0xe000
     then DecodeRune (uint r) (uint r2) # utf16_Decode s
     else replacementChar # utf16_Decode (r2 # s))"

text \<open>
  The UTF-8 encoding of one rune, as \<open>utf8.AppendRune\<close> writes it: a rune that is not a
  Unicode scalar value is encoded as \<open>U+FFFD\<close>.
\<close>

definition utf8_3 :: "int \<Rightarrow> string" where
  "utf8_3 r =
    [char_of (0xE0 OR drop_bit 12 r),
     char_of (0x80 OR (drop_bit 6 r AND 0x3F)),
     char_of (0x80 OR (r AND 0x3F))]"

definition AppendRune :: "int \<Rightarrow> string" where
  "AppendRune r =
    (if 0 \<le> r \<and> r \<le> 0x7F then [char_of r]
     else if 0 \<le> r \<and> r \<le> 0x7FF
     then [char_of (0xC0 OR drop_bit 6 r), char_of (0x80 OR (r AND 0x3F))]
     else if r < 0 \<or> 0x10FFFF < r \<or> (0xD800 \<le> r \<and> r \<le> 0xDFFF) then utf8_3 replacementChar
     else if r \<le> 0xFFFF then utf8_3 r
     else [char_of (0xF0 OR drop_bit 18 r),
           char_of (0x80 OR (drop_bit 12 r AND 0x3F)),
           char_of (0x80 OR (drop_bit 6 r AND 0x3F)),
           char_of (0x80 OR (r AND 0x3F))])"

definition string_of_runes :: "int list \<Rightarrow> string" where
  "string_of_runes runes = concat (map AppendRune runes)"

subsection \<open>\<open>decodeUTF16\<close>\<close>

text \<open>
  The loop of lines 231 to 237: \<open>utf16Data\<close> is allocated with \<open>len(data)/2\<close> zero entries
  and filled by indexed assignment.
\<close>

function pair_units :: "byte list \<Rightarrow> bool \<Rightarrow> nat \<Rightarrow> 16 word list \<Rightarrow> 16 word list option" where
  "pair_units data littleEndian i utf16Data =
    (if i < length data div 2
     then do {
       u \<leftarrow> (if littleEndian
              then do {
                b0 \<leftarrow> elem data (i * 2);
                b1 \<leftarrow> elem data (i * 2 + 1);
                Some ((ucast b0 :: 16 word) OR push_bit 8 (ucast b1))
              }
              else do {
                b1 \<leftarrow> elem data (i * 2 + 1);
                b0 \<leftarrow> elem data (i * 2);
                Some ((ucast b1 :: 16 word) OR push_bit 8 (ucast b0))
              });
       utf16Data \<leftarrow> store utf16Data i u;
       pair_units data littleEndian (i + 1) utf16Data
     }
     else Some utf16Data)"
  by pat_completeness auto
termination
  by (relation "measure (\<lambda>(data, littleEndian, i, utf16Data). length data div 2 - i)") auto

declare pair_units.simps [simp del]

text \<open>Lines 204 to 242.\<close>

definition decodeUTF16 :: "byte list \<Rightarrow> string option" where
  "decodeUTF16 data = do {
     (start, littleEndian) \<leftarrow>
       (if 2 \<le> length data
        then do {
          b0 \<leftarrow> elem data 0;
          b1 \<leftarrow> elem data 1;
          Some (if b0 = 0xFF \<and> b1 = 0xFE then (2, True)
                else if b0 = 0xFE \<and> b1 = 0xFF then (2, False)
                else (0, True))
        }
        else Some (0, True));
     data \<leftarrow> slice_from data start;
     if length data mod 2 \<noteq> 0 then Some (string_of_bytes data)
     else do {
       utf16Data \<leftarrow> pair_units data littleEndian 0 (replicate (length data div 2) 0);
       Some (string_of_runes (utf16_Decode utf16Data))
     }
   }"

subsection \<open>\<open>processOutput\<close>\<close>

text \<open>
  Lines 155 to 173. The builder behind \<open>debugInfo\<close> is passed in and returned with what
  was written to it.
\<close>

definition processOutput :: "byte list \<Rightarrow> bool \<Rightarrow> string \<Rightarrow> (string \<times> string) option" where
  "processOutput data verbose debugInfo =
    (if length data = 0 then Some ([], debugInfo)
     else do {
       utf16 \<leftarrow> isUTF16 data;
       if utf16
       then do {
         let debugInfo =
           (if verbose then debugInfo @ ''UTF-16 encoding detected, decoding...\<newline>''
            else debugInfo);
         decoded \<leftarrow> decodeUTF16 data;
         Some (decoded, debugInfo)
       }
       else
         (let debugInfo =
            (if verbose then debugInfo @ ''Using standard UTF-8 processing\<newline>''
             else debugInfo)
          in Some (string_of_bytes data, debugInfo))
     })"

section \<open>\<open>strings.TrimSpace\<close>\<close>

text \<open>
  \<open>strings.TrimSpace\<close> belongs to Go's standard library: it removes all leading and all
  trailing white space, as defined by Unicode, from a string read as UTF-8. The white
  space code points are \<open>U+0009\<close> to \<open>U+000D\<close>, \<open>U+0020\<close>, \<open>U+0085\<close>, \<open>U+00A0\<close>,
  \<open>U+1680\<close>, \<open>U+2000\<close> to \<open>U+200A\<close>, \<open>U+2028\<close>, \<open>U+2029\<close>, \<open>U+202F\<close>, \<open>U+205F\<close> and
  \<open>U+3000\<close>; a byte sequence decodes to one of them exactly when it is its UTF-8
  encoding, listed here, since every other sequence decodes to another code point or to
  the error rune. \<open>leading_space\<close> is the length of the white space code point a string
  starts with, 0 if there is none, and \<open>trailing_space\<close> the same at its end.
\<close>

definition space_encodings :: "string list" where
  "space_encodings =
    [[CHR 0x09], [CHR 0x0A], [CHR 0x0B], [CHR 0x0C], [CHR 0x0D], [CHR 0x20],
     [CHR 0xC2, CHR 0x85], [CHR 0xC2, CHR 0xA0],
     [CHR 0xE1, CHR 0x9A, CHR 0x80],
     [CHR 0xE2, CHR 0x80, CHR 0x80], [CHR 0xE2, CHR 0x80, CHR 0x81],
     [CHR 0xE2, CHR 0x80, CHR 0x82], [CHR 0xE2, CHR 0x80, CHR 0x83],
     [CHR 0xE2, CHR 0x80, CHR 0x84], [CHR 0xE2, CHR 0x80, CHR 0x85],
     [CHR 0xE2, CHR 0x80, CHR 0x86], [CHR 0xE2, CHR 0x80, CHR 0x87],
     [CHR 0xE2, CHR 0x80, CHR 0x88], [CHR 0xE2, CHR 0x80, CHR 0x89],
     [CHR 0xE2, CHR 0x80, CHR 0x8A],
     [CHR 0xE2, CHR 0x80, CHR 0xA8], [CHR 0xE2, CHR 0x80, CHR 0xA9],
     [CHR 0xE2, CHR 0x80, CHR 0xAF], [CHR 0xE2, CHR 0x81, CHR 0x9F],
     [CHR 0xE3, CHR 0x80, CHR 0x80]]"

definition leading_space :: "string \<Rightarrow> nat" where
  "leading_space s =
    (case find (\<lambda>w. prefix w s) space_encodings of None \<Rightarrow> 0 | Some w \<Rightarrow> length w)"

definition trailing_space :: "string \<Rightarrow> nat" where
  "trailing_space s =
    (case find (\<lambda>w. suffix w s) space_encodings of None \<Rightarrow> 0 | Some w \<Rightarrow> length w)"

lemma leading_space_le: "leading_space s \<le> length s"
  by (auto simp add: leading_space_def find_Some_iff prefix_length_le split: option.split)

lemma trailing_space_le: "trailing_space s \<le> length s"
  by (auto simp add: trailing_space_def find_Some_iff suffix_length_le split: option.split)

function TrimLeft :: "string \<Rightarrow> string" where
  "TrimLeft s = (if leading_space s = 0 then s else TrimLeft (drop (leading_space s) s))"
  by pat_completeness auto
termination
proof (relation "measure length")
  fix s :: string
  assume "leading_space s \<noteq> 0"
  with leading_space_le [of s] show "(drop (leading_space s) s, s) \<in> measure length"
    by simp
qed simp

function TrimRight :: "string \<Rightarrow> string" where
  "TrimRight s =
    (if trailing_space s = 0 then s else TrimRight (take (length s - trailing_space s) s))"
  by pat_completeness auto
termination
proof (relation "measure length")
  fix s :: string
  assume "trailing_space s \<noteq> 0"
  with trailing_space_le [of s] show "(take (length s - trailing_space s) s, s) \<in> measure length"
    by simp
qed simp

declare TrimLeft.simps [simp del] TrimRight.simps [simp del]

definition TrimSpace :: "string \<Rightarrow> string" where
  "TrimSpace s = TrimRight (TrimLeft s)"

text \<open>
  A string that consists of white space code points only: it is empty, or it starts with
  one of them and the rest is of the same kind. This is what trimming may remove.
\<close>

function white_space :: "string \<Rightarrow> bool" where
  "white_space s =
    (if s = [] then True
     else if leading_space s = 0 then False
     else white_space (drop (leading_space s) s))"
  by pat_completeness auto
termination
proof (relation "measure length")
  fix s :: string
  assume "s \<noteq> []" and "leading_space s \<noteq> 0"
  then show "(drop (leading_space s) s, s) \<in> measure length"
    by simp
qed simp

declare white_space.simps [simp del]

section \<open>\<open>executeCommand\<close>\<close>

text \<open>
  Lines 60 to 153 of \<open>main.go\<close>. \<open>executeCommand_run\<close> returns the response together with
  the final content of the builder \<open>debugInfo\<close>, so that what was traced can be stated;
  \<open>executeCommand\<close> is the function of the source. The result is \<open>None\<close> if a run-time
  check fails on the way.
\<close>

definition executeCommand_run :: "Env \<Rightarrow> Request \<Rightarrow> (Response \<times> string) option" where
  "executeCommand_run env req =
    (let (cmd, debugInfo) = dispatch (GOOS env) req;
         (output, err) = CombinedOutput env cmd;
         duration = Milliseconds env
     in do {
       (processedOutput, debugInfo) \<leftarrow> processOutput output (Verbose req) debugInfo;
       let resp = \<lparr>Output = TrimSpace processedOutput, Error = [], Duration = duration,
                   Debug = []\<rparr>;
       let (resp, debugInfo) =
         (case err of
            None \<Rightarrow> (resp, debugInfo)
          | Some e \<Rightarrow>
              (resp\<lparr>Error := e\<rparr>,
               if Verbose req
               then debugInfo @ (''Command failed with error: '' @ e @ ''\<newline>'')
               else debugInfo));
       let (resp, debugInfo) =
         (if Verbose req
          then (let debugInfo =
                  debugInfo @ (''Execution completed in '' @ fmt_d duration @ ''ms\<newline>'')
                in (resp\<lparr>Debug := debugInfo\<rparr>, debugInfo))
          else (resp, debugInfo));
       Some (resp, debugInfo)
     })"

definition executeCommand :: "Env \<Rightarrow> Request \<Rightarrow> Response option" where
  "executeCommand env req = map_option fst (executeCommand_run env req)"

text \<open>
  Lines 58 to 148 of \<open>type.go\<close>: the captured bytes are converted to a string as they
  are.
\<close>

definition executeCommand_type :: "Env \<Rightarrow> Request_type \<Rightarrow> Response option" where
  "executeCommand_type env req =
    (let (cmd, debugInfo) = dispatch_type (GOOS env) req;
         (output, err) = CombinedOutput env cmd;
         duration = Milliseconds env;
         resp = \<lparr>Output = TrimSpace (string_of_bytes output), Error = [], Duration = duration,
                 Debug = []\<rparr>;
         (resp, debugInfo) =
           (case err of
              None \<Rightarrow> (resp, debugInfo)
            | Some e \<Rightarrow>
                (resp\<lparr>Error := e\<rparr>,
                 if Verbose req
                 then debugInfo @ (''Command failed with error: '' @ e @ ''\<newline>'')
                 else debugInfo));
         resp =
           (if Verbose req
            then resp\<lparr>Debug :=
                   debugInfo @ (''Execution completed in '' @ fmt_d duration @ ''ms\<newline>'')\<rparr>
            else resp)
     in Some resp)"

section \<open>Reading a request\<close>

text \<open>
  Lines 45 to 51 of \<open>main.go\<close>. \<open>encoding/json\<close> is a library; what the program relies on is
  this. \<open>json.Unmarshal\<close> checks the syntax of the whole line before it stores anything,
  and returns an error, with \<open>req\<close> untouched, for a line that is not JSON or is a JSON
  value other than an object or \<open>null\<close>. For a JSON object it assigns the members that are
  present with a value of the field's type and leaves every other field of \<open>req\<close> as it
  is; when some member has a value of another type it skips that member, stores the
  others all the same, and returns an error at the end. A line is therefore given with
  its parse: \<open>Invalid\<close>, or an object with the members \<open>command\<close>, \<open>type\<close>, \<open>headless\<close>,
  \<open>verbose\<close> and \<open>persist_window\<close> that it has with a well-typed value, \<open>Object\<close> when all
  its members are well typed (\<open>null\<close> is the object without members) and \<open>Mistyped\<close> when
  one of them is not.
\<close>

record Members =
  command :: "string option"
  type :: "string option"
  headless :: "bool option"
  verbose :: "bool option"
  persist_window :: "bool option"

datatype Parse = Invalid | Object Members | Mistyped Members

definition zero_Request :: Request where
  "zero_Request =
    \<lparr>Command = [], Type = [], Headless = False, Verbose = False, PersistWindow = False\<rparr>"

definition store_members :: "Members \<Rightarrow> Request \<Rightarrow> Request" where
  "store_members m req =
    (let req = (case command m of None \<Rightarrow> req | Some v \<Rightarrow> req\<lparr>Command := v\<rparr>);
         req = (case type m of None \<Rightarrow> req | Some v \<Rightarrow> req\<lparr>Type := v\<rparr>);
         req = (case headless m of None \<Rightarrow> req | Some v \<Rightarrow> req\<lparr>Headless := v\<rparr>);
         req = (case verbose m of None \<Rightarrow> req | Some v \<Rightarrow> req\<lparr>Verbose := v\<rparr>);
         req = (case persist_window m of None \<Rightarrow> req | Some v \<Rightarrow> req\<lparr>PersistWindow := v\<rparr>)
     in req)"

text \<open>\<open>json.Unmarshal(line, &req)\<close>: whether it returns an error, and \<open>req\<close> afterwards.\<close>

definition Unmarshal :: "Parse \<Rightarrow> Request \<Rightarrow> bool \<times> Request" where
  "Unmarshal parse req =
    (case parse of
       Invalid \<Rightarrow> (True, req)
     | Object m \<Rightarrow> (False, store_members m req)
     | Mistyped m \<Rightarrow> (True, store_members m req))"

definition read_request :: "string \<Rightarrow> Parse \<Rightarrow> Request" where
  "read_request line parse =
    (let req = zero_Request;
         (err, req) = Unmarshal parse req
     in if err then req\<lparr>Command := line, Type := ''cmd'', Headless := True\<rparr> else req)"

section \<open>The classifier as the specification states it\<close>

text \<open>
  The three steps of the specification of \<open>is_utf16\<close>, in its words: a leading byte-order
  mark decides; otherwise, for an even length greater than 10, the number of zero bytes at
  odd positions divided by half the length must exceed \<open>0.3\<close>; otherwise the answer is no.
  The ratio is a rational number here, compared exactly.
\<close>

definition zero_odd_count :: "byte list \<Rightarrow> nat" where
  "zero_odd_count bytes = length (filter (\<lambda>i. odd i \<and> bytes ! i = 0) [0..<length bytes])"

definition is_utf16_spec :: "byte list \<Rightarrow> bool" where
  "is_utf16_spec bytes =
    (if take 2 bytes = [0xFF, 0xFE] \<or> take 2 bytes = [0xFE, 0xFF] then True
     else if even (length bytes) \<and> 10 < length bytes
     then (3 / 10 :: rat) < of_nat (zero_odd_count bytes) / of_nat (length bytes div 2)
     else False)"

section \<open>UTF-16 text as the round trip of the specification encodes it\<close>

text \<open>
  A text is a sequence of Unicode scalar values: code points up to \<open>U+10FFFF\<close> that are
  not surrogates. Its UTF-16 encoding writes a code point below \<open>U+10000\<close> as one code
  unit and any other as a surrogate pair; the code units are then laid out as bytes, low
  byte first (little-endian) or high byte first (big-endian). The Go string of a text is
  \<open>string_of_runes\<close> of it, its UTF-8 encoding.
\<close>

definition scalar_value :: "int \<Rightarrow> bool" where
  "scalar_value c = (0 \<le> c \<and> c \<le> 0x10FFFF \<and> \<not> (0xD800 \<le> c \<and> c \<le> 0xDFFF))"

definition EncodeRune :: "int \<Rightarrow> 16 word list" where
  "EncodeRune c =
    (if c < 0x10000 then [word_of_int c]
     else [word_of_int (0xD800 + (c - 0x10000) div 0x400),
           word_of_int (0xDC00 + (c - 0x10000) mod 0x400)])"

definition utf16_Encode :: "int list \<Rightarrow> 16 word list" where
  "utf16_Encode text = concat (map EncodeRune text)"

definition bytes_LE :: "16 word list \<Rightarrow> byte list" where
  "bytes_LE units = concat (map (\<lambda>u. [ucast u, ucast (drop_bit 8 u)]) units)"

definition bytes_BE :: "16 word list \<Rightarrow> byte list" where
  "bytes_BE units = concat (map (\<lambda>u. [ucast (drop_bit 8 u), ucast u]) units)"

text \<open>What is left of a buffer once a leading byte-order mark is stripped.\<close>

definition without_mark :: "byte list \<Rightarrow> byte list" where
  "without_mark bytes =
    (if take 2 bytes = [0xFF, 0xFE] \<or> take 2 bytes = [0xFE, 0xFF] then drop 2 bytes
     else bytes)"

section \<open>Auxiliary notions\<close>

text \<open>The code unit that \<open>decodeUTF16\<close> builds at index \<open>j\<close> of \<open>utf16Data\<close>.\<close>

definition unit_at :: "bool \<Rightarrow> byte list \<Rightarrow> nat \<Rightarrow> 16 word" where
  "unit_at littleEndian data j =
    (if littleEndian
     then ucast (data ! (j * 2)) OR push_bit 8 (ucast (data ! (j * 2 + 1)))
     else ucast (data ! (j * 2 + 1)) OR push_bit 8 (ucast (data ! (j * 2))))"

section \<open>Properties of the dispatcher\<close>

lemma dispatch_quiet: "\<not> Verbose req \<Longrightarrow> snd (dispatch goos req) = []"
  by (simp add: dispatch_def Let_def split_def)

lemma dispatch_PersistWindow:
  "fst (dispatch goos (req\<lparr>PersistWindow := b\<rparr>)) = fst (dispatch goos req)"
  by (simp add: dispatch_def Let_def split_def)

lemma dispatch_type_cmd:
  "fst (dispatch_type goos (Request_type.truncate req)) = fst (dispatch goos req)"
  by (simp add: dispatch_def dispatch_type_def Let_def split_def Request_type.truncate_def)

text \<open>
  Claim C2, as the code has it by design. For a request whose \<open>Type\<close> is none of
  \<open>powershell\<close>, \<open>ps\<close> and \<open>wsl\<close> the dispatcher always builds a default-shell command and
  never fails. On Windows the command is \<open>cmd /C <command>\<close> with the window hidden in
  headless mode and \<open>cmd /C start cmd /K <command>\<close> with a new console in headed mode; on
  any other host, in headed mode, it is \<open>bash -c <command>\<close>.
\<close>

theorem default_shell_dispatch:
  assumes "Type req \<noteq> ''powershell''" and "Type req \<noteq> ''ps''" and "Type req \<noteq> ''wsl''"
  shows "(goos = ''windows'' \<longrightarrow>
            fst (dispatch goos req) =
              (if Headless req
               then \<lparr>Args = [''cmd'', ''/C'', Command req],
                     Attr = Some \<lparr>HideWindow = True, CreationFlags = 0\<rparr>\<rparr>
               else \<lparr>Args = [''cmd'', ''/C'', ''start'', ''cmd'', ''/K'', Command req],
                     Attr = Some \<lparr>HideWindow = False,
                                  CreationFlags = CREATE_NEW_CONSOLE\<rparr>\<rparr>)) \<and>
         (goos \<noteq> ''windows'' \<and> \<not> Headless req \<longrightarrow>
            fst (dispatch goos req) =
              \<lparr>Args = [''bash'', ''-c'', Command req],
               Attr = Some \<lparr>HideWindow = False, CreationFlags = 0\<rparr>\<rparr>)"
  using assms by (simp add: dispatch_def Let_def split_def exec_Command_def)

theorem default_shell_dispatch_witness:
  "fst (dispatch ''windows''
     \<lparr>Command = ''dir'', Type = ''unknown'', Headless = True, Verbose = False,
      PersistWindow = False\<rparr>)
   = \<lparr>Args = [''cmd'', ''/C'', ''dir''],
      Attr = Some \<lparr>HideWindow = True, CreationFlags = 0\<rparr>\<rparr> \<and>
   fst (dispatch ''windows''
     \<lparr>Command = ''dir'', Type = ''unknown'', Headless = False, Verbose = False,
      PersistWindow = False\<rparr>)
   = \<lparr>Args = [''cmd'', ''/C'', ''start'', ''cmd'', ''/K'', ''dir''],
      Attr = Some \<lparr>HideWindow = False, CreationFlags = CREATE_NEW_CONSOLE\<rparr>\<rparr> \<and>
   fst (dispatch ''linux''
     \<lparr>Command = ''dir'', Type = ''unknown'', Headless = False, Verbose = False,
      PersistWindow = False\<rparr>)
   = \<lparr>Args = [''bash'', ''-c'', ''dir''],
      Attr = Some \<lparr>HideWindow = False, CreationFlags = 0\<rparr>\<rparr>"
  using
    default_shell_dispatch [of "\<lparr>Command = ''dir'', Type = ''unknown'', Headless = True,
      Verbose = False, PersistWindow = False\<rparr>" "''windows''"]
    default_shell_dispatch [of "\<lparr>Command = ''dir'', Type = ''unknown'', Headless = False,
      Verbose = False, PersistWindow = False\<rparr>" "''windows''"]
    default_shell_dispatch [of "\<lparr>Command = ''dir'', Type = ''unknown'', Headless = False,
      Verbose = False, PersistWindow = False\<rparr>" "''linux''"]
  by simp

text \<open>
  Claim C2 as the specification states it fails on Windows: a headed request with an
  empty \<open>Type\<close> is not run as \<open>cmd /C <command>\<close> but as \<open>cmd /C start cmd /K <command>\<close>.
\<close>

theorem default_shell_counterexample:
  "Args (fst (dispatch ''windows''
      \<lparr>Command = ''dir'', Type = [], Headless = False, Verbose = False,
       PersistWindow = False\<rparr>))
     = [''cmd'', ''/C'', ''start'', ''cmd'', ''/K'', ''dir''] \<and>
   Args (fst (dispatch ''windows''
      \<lparr>Command = ''dir'', Type = [], Headless = False, Verbose = False,
       PersistWindow = False\<rparr>))
     \<noteq> [''cmd'', ''/C'', ''dir'']"
  by (simp add: dispatch_def Let_def split_def exec_Command_def)

section \<open>Properties of the rounding to \<open>float64\<close>\<close>

lemma shift_up_spec:
  "0 < p \<Longrightarrow> p < q \<Longrightarrow>
     0 < shift_up p q \<and> q \<le> p * 2 ^ shift_up p q \<and> p * 2 ^ shift_up p q < 2 * q"
proof (induction p q rule: shift_up.induct)
  case (1 p q)
  show ?case
  proof (cases "q \<le> 2 * p")
    case True
    then have "shift_up (2 * p) q = 0" by (simp add: shift_up.simps)
    with 1 True show ?thesis by (subst (1 2 3) shift_up.simps) simp
  next
    case False
    with 1 have IH: "q \<le> 2 * p * 2 ^ shift_up (2 * p) q \<and> 2 * p * 2 ^ shift_up (2 * p) q < 2 * q"
      by simp
    from 1 have "shift_up p q = Suc (shift_up (2 * p) q)" by (subst shift_up.simps) simp
    with IH show ?thesis by (simp add: mult.assoc mult.left_commute)
  qed
qed

lemma shift_down_spec:
  "0 < q \<Longrightarrow> q \<le> p \<Longrightarrow> q * 2 ^ shift_down p q \<le> p \<and> p < 2 * q * 2 ^ shift_down p q"
proof (induction p q rule: shift_down.induct)
  case (1 p q)
  show ?case
  proof (cases "p < 2 * q")
    case True
    then have "shift_down p q = 0" by (simp add: shift_down.simps)
    with 1 True show ?thesis by simp
  next
    case False
    with 1 have IH: "2 * q * 2 ^ shift_down p (2 * q) \<le> p \<and> p < 2 * (2 * q) * 2 ^ shift_down p (2 * q)"
      by simp
    from 1 False have "shift_down p q = Suc (shift_down p (2 * q))" by (subst shift_down.simps) simp
    with IH show ?thesis by (simp add: mult.assoc mult.left_commute)
  qed
qed

lemma rne_lower: "n div d \<le> rne n d"
  by (simp add: rne_def Let_def)

lemma rne_upper: "rne n d \<le> n div d + 1"
  by (simp add: rne_def Let_def)

lemma rne_exact: "0 < d \<Longrightarrow> rne (m * d) d = m"
  by (simp add: rne_def Let_def)

lemma rne_gt_odd:
  assumes "odd K" and "0 < d"
  shows "(K < rne n d) = ((2 * K + 1) * d \<le> 2 * n)"
proof -
  define q where "q = n div d"
  define r where "r = n mod d"
  have n: "n = q * d + r" and r: "r < d"
    using assms by (simp_all add: q_def r_def)
  have rne: "rne n d = (if 2 * r < d then q else if d < 2 * r then q + 1 else if even q then q else q + 1)"
    by (simp add: rne_def Let_def q_def r_def)
  consider "K + 1 \<le> q" | "q = K" | "q + 1 \<le> K" by linarith
  then show ?thesis
  proof cases
    case 1
    then have "(K + 1) * d \<le> q * d" by (rule mult_le_mono1)
    then have "K * d + d \<le> q * d" by (simp add: algebra_simps)
    moreover have "K < rne n d" using 1 rne by simp
    ultimately show ?thesis using n by (simp add: algebra_simps)
  next
    case 2
    then show ?thesis using rne n r assms by (auto simp: algebra_simps)
  next
    case 3
    then have "(q + 1) * d \<le> K * d" by (rule mult_le_mono1)
    then have "q * d + d \<le> K * d" by (simp add: algebra_simps)
    moreover have "\<not> K < rne n d" using 3 rne by simp
    ultimately show ?thesis using n r by (simp add: algebra_simps)
  qed
qed

lemma quotient_of_three_tenths: "quotient_of (3 / 10) = (3, 10)"
  by code_simp

lemma shift_up_three_tenths: "shift_up 3 10 = 2"
  by (simp add: shift_up.simps)

lemma float64_three_tenths: "float64 (3 / 10) = 5404319552844595 / 2 ^ 54"
  by (simp add: float64_def quotient_of_three_tenths round53_def shift_up_three_tenths rne_def Let_def)

lemma frac_less_pow:
  "((of_nat a :: rat) / 2 ^ m < of_nat b / 2 ^ n) = (a * 2 ^ n < b * 2 ^ m)"
proof -
  have "((of_nat a :: rat) / 2 ^ m < of_nat b / 2 ^ n) = ((of_nat a :: rat) * 2 ^ n < of_nat b * 2 ^ m)"
    by (simp add: field_simps)
  also have "\<dots> = ((of_nat (a * 2 ^ n) :: rat) < of_nat (b * 2 ^ m))"
    by simp
  also have "\<dots> = (a * 2 ^ n < b * 2 ^ m)"
    by (simp only: of_nat_less_iff)
  finally show ?thesis .
qed

lemma round53_same: "0 < p \<Longrightarrow> round53 p p = 1"
proof -
  assume p: "0 < p"
  have "shift_down p p = 0" using p by (simp add: shift_down.simps)
  moreover have "rne (p * 2 ^ 52) p = 2 ^ 52"
    using rne_exact [of p "2 ^ 52"] p by (simp add: mult.commute)
  ultimately show ?thesis by (simp add: round53_def)
qed

lemma round53_gt_03:
  assumes p: "0 < p" and pq: "p \<le> q" and q: "6 * q \<le> 2 ^ 55"
  shows "(5404319552844595 / 2 ^ 54 < round53 p q) = (3 * q < 10 * p)"
proof (cases "p = q")
  case True
  with p show ?thesis by (simp add: round53_same)
next
  case False
  with pq have lt: "p < q" by simp
  define k where "k = shift_up p q"
  define N where "N = rne (p * 2 ^ (k + 52)) q"
  from shift_up_spec [OF p lt]
  have k0: "0 < k" and lo: "q \<le> p * 2 ^ k" and hi: "p * 2 ^ k < 2 * q"
    by (simp_all add: k_def)
  have val: "round53 p q = of_nat N / 2 ^ (k + 52)"
    using lt by (simp add: round53_def N_def k_def Let_def)
  have cmp: "(5404319552844595 / 2 ^ 54 < round53 p q) = (5404319552844595 * 2 ^ (k + 52) < N * 2 ^ 54)"
    using frac_less_pow [of 5404319552844595 54 N "k + 52"] by (simp add: val)
  consider "k = 1" | "k = 2" | "3 \<le> k" using k0 by linarith
  then show ?thesis
  proof cases
    case 1
    have "q * 2 ^ 52 \<le> p * 2 ^ 53" using lo 1 by simp
    then have "2 ^ 52 \<le> (p * 2 ^ 53) div q"
      using lt by (simp add: less_eq_div_iff_mult_less_eq mult.commute)
    also have "\<dots> \<le> N" using rne_lower [of "p * 2 ^ 53" q] by (simp add: N_def 1)
    finally have "2 ^ 52 \<le> N" .
    then have "5404319552844595 * 2 ^ (k + 52) < N * 2 ^ 54" by (simp add: 1)
    moreover have "3 * q < 10 * p" using lo 1 p by simp
    ultimately show ?thesis unfolding cmp by simp
  next
    case 2
    have "(5404319552844595 * 2 ^ (k + 52) < N * 2 ^ 54) = (5404319552844595 < N)"
      by (simp add: 2)
    also have "\<dots> = ((2 * 5404319552844595 + 1) * q \<le> 2 * (p * 2 ^ 54))"
      unfolding N_def 2 using rne_gt_odd [of 5404319552844595 q "p * 2 ^ 54"] lt by simp
    also have "\<dots> = (3 * q < 10 * p)"
      using q lt by simp arith
    finally show ?thesis unfolding cmp .
  next
    case 3
    then obtain m where m: "k = 3 + m" using le_Suc_ex by blast
    have "(8::nat) * 1 \<le> 8 * 2 ^ m" by (rule mult_le_mono2) simp
    then have "p * 8 \<le> p * 2 ^ k" by (simp add: m power_add)
    with hi have small: "4 * p < q" by linarith
    have "p * 2 ^ (k + 52) < q * 2 ^ 53"
      using hi by (simp add: power_add)
    then have "(p * 2 ^ (k + 52)) div q < 2 ^ 53"
      using lt by (simp add: div_less_iff_less_mult mult.commute)
    then have "N \<le> 2 ^ 53"
      using rne_upper [of "p * 2 ^ (k + 52)" q] by (simp add: N_def)
    then have "N * 2 ^ 54 \<le> 2 ^ 53 * 2 ^ 54" by (rule mult_le_mono1)
    moreover have "(2::nat) ^ 52 * 2 ^ 55 \<le> 5404319552844595 * 2 ^ (k + 52)"
    proof -
      have "(1::nat) \<le> 2 ^ m" by simp
      then have "(4503599627370496::nat) * 1 \<le> 5404319552844595 * 2 ^ m"
        by (intro mult_le_mono) simp_all
      then show ?thesis by (simp add: m power_add)
    qed
    ultimately have "\<not> 5404319552844595 * 2 ^ (k + 52) < N * 2 ^ 54" by simp
    moreover have "\<not> 3 * q < 10 * p" using small by simp
    ultimately show ?thesis unfolding cmp by simp
  qed
qed


lemma float64_of_nat:
  assumes "n < 2 ^ 53"
  shows "float64 (of_nat n) = of_nat n"
proof (cases "n = 0")
  case True
  then show ?thesis by (simp add: float64_def)
next
  case False
  define j where "j = shift_down n 1"
  from False shift_down_spec [of 1 n]
  have lo: "2 ^ j \<le> n" and hi: "n < 2 * 2 ^ j" by (simp_all add: j_def)
  from lo assms have "(2::nat) ^ j < 2 ^ 53" by (rule le_less_trans)
  then have "j < 53" by (rule power_less_imp_less_exp [rotated]) simp
  then have j: "j \<le> 52" by simp
  then obtain i where i: "52 = i + j" using le_Suc_ex by (metis add.commute)
  have e: "(2::nat) ^ 52 = 2 ^ i * 2 ^ j" by (simp only: i power_add)
  have "rne ((n * 2 ^ i) * 2 ^ j) (2 ^ j) = n * 2 ^ i"
    by (rule rne_exact) simp
  then have r: "rne (n * 2 ^ 52) (1 * 2 ^ j) = n * 2 ^ i"
    by (simp only: e mult.assoc mult_1)
  have "\<not> n < 1" using False by simp
  then have "round53 n 1 = of_nat (rne (n * 2 ^ 52) (1 * 2 ^ j)) * 2 ^ j / 2 ^ 52"
    by (simp only: round53_def j_def Let_def if_False)
  also have "\<dots> = of_nat (n * (2 ^ i * 2 ^ j)) / 2 ^ 52"
    by (simp only: r of_nat_mult of_nat_power of_nat_numeral mult.assoc)
  also have "\<dots> = of_nat n"
    by (simp only: e [symmetric]) simp
  finally show ?thesis using False by (simp add: float64_def)
qed

lemma float64_ratio:
  assumes b: "0 < b" and ab: "a \<le> b" and bound: "b \<le> 2 ^ 52"
  shows "(float64 (3 / 10) < float64 (float64 (of_nat a) / float64 (of_nat b)))
         = ((3 / 10 :: rat) < of_nat a / of_nat b)"
proof -
  have conv: "float64 (of_nat a) = of_nat a" "float64 (of_nat b) = of_nat b"
    using ab bound by (simp_all add: float64_of_nat)
  obtain p q where pq: "quotient_of (of_nat a / of_nat b) = (p, q)" by fastforce
  have qpos: "0 < q" using pq by (rule quotient_of_denom_pos)
  have eq: "(of_nat a / of_nat b :: rat) = of_int p / of_int q" using pq by (rule quotient_of_div)
  have cross: "int a * q = p * int b"
  proof -
    have "(of_nat a :: rat) * of_int q = of_int p * of_nat b"
      using eq b qpos by (simp add: field_simps)
    then have "(of_int (int a * q) :: rat) = of_int (p * int b)" by simp
    then show ?thesis by (simp only: of_int_eq_iff)
  qed
  show ?thesis
  proof (cases "a = 0")
    case True
    have "float64 0 = 0" by (simp add: float64_def)
    with True show ?thesis by (simp add: float64_three_tenths)
  next
    case False
    have ppos: "0 < p"
    proof (rule ccontr)
      assume "\<not> 0 < p"
      then have "p * int b \<le> 0" using b by (simp add: mult_le_0_iff)
      moreover have "0 < int a * q" using False qpos by simp
      ultimately show False using cross by simp
    qed
    have "coprime p q" using pq by (rule quotient_of_coprime)
    moreover have "q dvd p * int b" using cross by (metis dvd_triv_right)
    ultimately have "q dvd int b" by (simp add: coprime_commute coprime_dvd_mult_right_iff)
    then have qb: "q \<le> int b" using b by (simp add: zdvd_imp_le)
    have pq_le: "p \<le> q"
    proof -
      have "p * int b \<le> int b * q" using cross ab qpos by (metis mult.commute mult_right_mono of_nat_le_iff order_less_imp_le)
      then show ?thesis using b by (simp add: mult.commute)
    qed
    have "float64 (of_nat a / of_nat b) = round53 (nat p) (nat q)"
      using pq ppos by (simp add: float64_def)
    moreover have "(5404319552844595 / 2 ^ 54 < round53 (nat p) (nat q)) = (3 * nat q < 10 * nat p)"
      using ppos pq_le qb bound by (intro round53_gt_03) simp_all
    moreover have "(3 * nat q < 10 * nat p) = ((3 / 10 :: rat) < of_int p / of_int q)"
    proof -
      have "((3 / 10 :: rat) < of_int p / of_int q) = ((3 :: rat) * of_int q < 10 * of_int p)"
        using qpos by (simp add: field_simps)
      also have "\<dots> = ((of_int (3 * q) :: rat) < of_int (10 * p))" by simp
      also have "\<dots> = (3 * q < 10 * p)" by (simp only: of_int_less_iff)
      also have "\<dots> = (3 * nat q < 10 * nat p)" using ppos qpos by linarith
      finally show ?thesis by simp
    qed
    ultimately show ?thesis by (simp add: conv float64_three_tenths eq)
  qed
qed

section \<open>Properties of \<open>isUTF16\<close>\<close>

lemma elem_Some [simp]: "i < length xs \<Longrightarrow> elem xs i = Some (xs ! i)"
  by (simp add: elem_def)

lemma even_step: "even (d::nat) = (d = 0 \<or> (2 \<le> d \<and> even (d - 2)))"
proof (cases d)
  case 0
  then show ?thesis by simp
next
  case (Suc e)
  then show ?thesis by (cases e) simp_all
qed

lemma even_offset_step: "(i \<le> j \<and> even (j - i)) = (j = i \<or> (i + 2 \<le> j \<and> even (j - (i + 2))))" for i j :: nat
proof (cases "i \<le> j")
  case True
  then obtain d where "j = i + d" using le_Suc_ex by blast
  then show ?thesis using even_step [of d] by simp
next
  case False
  then show ?thesis by simp
qed


lemma Collect_head_in:
  "Q i \<Longrightarrow> R i \<Longrightarrow> {j. (j = i \<or> P j) \<and> Q j \<and> R j} = insert i {j. P j \<and> Q j \<and> R j}"
  by blast

lemma Collect_head_out:
  "\<not> R i \<Longrightarrow> {j. (j = i \<or> P j) \<and> Q j \<and> R j} = {j. P j \<and> Q j \<and> R j}"
  by blast

lemma zeros_split:
  "{j. i \<le> j \<and> j < length data \<and> even (j - i) \<and> data ! j = 0}
     = {j. (j = i \<or> (i + 2 \<le> j \<and> even (j - (i + 2)))) \<and> j < length data \<and> data ! j = 0}"
proof -
  have "\<And>j. (i \<le> j \<and> j < length data \<and> even (j - i) \<and> data ! j = 0)
     = ((j = i \<or> (i + 2 \<le> j \<and> even (j - (i + 2)))) \<and> j < length data \<and> data ! j = 0)"
    using even_offset_step by blast
  then show ?thesis by simp
qed

lemma zeros_split_in:
  assumes "i < length data" and "data ! i = 0"
  shows "{j. i \<le> j \<and> j < length data \<and> even (j - i) \<and> data ! j = 0}
    = insert i {j. i + 2 \<le> j \<and> j < length data \<and> even (j - (i + 2)) \<and> data ! j = 0}"
proof -
  have "{j. (j = i \<or> (i + 2 \<le> j \<and> even (j - (i + 2)))) \<and> j < length data \<and> data ! j = 0}
       = insert i {j. (i + 2 \<le> j \<and> even (j - (i + 2))) \<and> j < length data \<and> data ! j = 0}"
    using assms by (rule Collect_head_in)
  also have "\<dots> = insert i {j. i + 2 \<le> j \<and> j < length data \<and> even (j - (i + 2)) \<and> data ! j = 0}"
    by (rule arg_cong [where f = "insert i"]) blast
  finally show ?thesis by (simp only: zeros_split)
qed

lemma zeros_split_out:
  assumes "data ! i \<noteq> 0"
  shows "{j. i \<le> j \<and> j < length data \<and> even (j - i) \<and> data ! j = 0}
    = {j. i + 2 \<le> j \<and> j < length data \<and> even (j - (i + 2)) \<and> data ! j = 0}"
proof -
  have "{j. (j = i \<or> (i + 2 \<le> j \<and> even (j - (i + 2)))) \<and> j < length data \<and> data ! j = 0}
       = {j. (i + 2 \<le> j \<and> even (j - (i + 2))) \<and> j < length data \<and> data ! j = 0}"
    using assms by (rule Collect_head_out)
  also have "\<dots> = {j. i + 2 \<le> j \<and> j < length data \<and> even (j - (i + 2)) \<and> data ! j = 0}"
    by blast
  finally show ?thesis by (simp only: zeros_split)
qed

lemma count_null_card:
  "count_null data i k =
     Some (k + card {j. i \<le> j \<and> j < length data \<and> even (j - i) \<and> data ! j = 0})"
proof (induction data i k rule: count_null.induct)
  case (1 data i k)
  let ?S = "\<lambda>i. {j. i \<le> j \<and> j < length data \<and> even (j - i) \<and> data ! j = 0}"
  show ?case
  proof (cases "i < length data")
    case False
    then have "?S i = {}" by auto
    moreover have "count_null data i k = Some k"
      using False by (subst count_null.simps) simp
    ultimately show ?thesis by simp
  next
    case True
    have fin: "finite (?S (i + 2))" by simp
    have notin: "i \<notin> ?S (i + 2)" by simp
    have step: "count_null data i k =
       count_null data (i + 2) (if data ! i = 0 then k + 1 else k)"
      using True by (subst count_null.simps) simp
    show ?thesis
    proof (cases "data ! i = 0")
      case z: True
      have "count_null data i k = Some (k + 1 + card (?S (i + 2)))"
        using 1 [of "data ! i"] True z step by simp
      moreover have "card (?S i) = Suc (card (?S (i + 2)))"
        using zeros_split_in [OF True z] card_insert_disjoint [OF fin notin] by simp
      ultimately show ?thesis by simp
    next
      case nz: False
      have "count_null data i k = Some (k + card (?S (i + 2)))"
        using 1 [of "data ! i"] True nz step by simp
      moreover have "?S i = ?S (i + 2)"
        using zeros_split_out [OF nz] by simp
      ultimately show ?thesis by simp
    qed
  qed
qed


lemma odd_pred: "odd (j::nat) = (1 \<le> j \<and> even (j - 1))"
  by (cases j) auto

lemma zero_odd_count_eq:
  "zero_odd_count data = card {j. j < length data \<and> odd j \<and> data ! j = 0}"
proof -
  have "{i. i < length [0..<length data] \<and> odd ([0..<length data] ! i) \<and> data ! ([0..<length data] ! i) = 0}
      = {j. j < length data \<and> odd j \<and> data ! j = 0}"
    by (rule Collect_cong) auto
  then show ?thesis
    unfolding zero_odd_count_def length_filter_conv_card by simp
qed

lemma count_null_spec: "count_null data 1 0 = Some (zero_odd_count data)"
proof -
  have "{j. j < length data \<and> odd j \<and> data ! j = 0}
     = {j. 1 \<le> j \<and> j < length data \<and> even (j - 1) \<and> data ! j = 0}"
    by (rule Collect_cong) (use odd_pred in blast)
  then show ?thesis by (simp add: count_null_card zero_odd_count_eq)
qed


lemma count_null_spec_Suc: "count_null data (Suc 0) 0 = Some (zero_odd_count data)"
  using count_null_spec [of data] by simp

lemma odd_below_card: "card {j. j < n \<and> odd j} = n div 2"
proof -
  have "{j. j < n \<and> odd j} = (\<lambda>k. 2 * k + 1) ` {..< n div 2}"
  proof (intro set_eqI iffI)
    fix j assume "j \<in> {j. j < n \<and> odd j}"
    then have jn: "j < n" and "odd j" by simp_all
    from \<open>odd j\<close> obtain k where k: "j = 2 * k + 1" by (rule oddE)
    with jn have "k < n div 2" by linarith
    with k show "j \<in> (\<lambda>k. 2 * k + 1) ` {..< n div 2}" by simp
  next
    fix j assume "j \<in> (\<lambda>k. 2 * k + 1) ` {..< n div 2}"
    then obtain k where k: "j = 2 * k + 1" and "k < n div 2" by blast
    then have "j < n" by linarith
    with k show "j \<in> {j. j < n \<and> odd j}" by simp
  qed
  moreover have "inj_on (\<lambda>k::nat. 2 * k + 1) {..< n div 2}" by (simp add: inj_on_def)
  ultimately show ?thesis by (simp add: card_image)
qed

lemma zero_odd_count_le: "zero_odd_count data \<le> length data div 2"
proof -
  have "card {j. j < length data \<and> odd j \<and> data ! j = 0} \<le> card {j. j < length data \<and> odd j}"
    by (rule card_mono) auto
  then show ?thesis by (simp add: odd_below_card zero_odd_count_eq)
qed

lemma bom_take_LE:
  "(2 \<le> length data \<and> data ! 0 = 0xFF \<and> data ! 1 = 0xFE) = (take 2 data = [0xFF, 0xFE])" for data :: "byte list"
  by (cases data; cases "tl data") auto

lemma bom_take_BE:
  "(2 \<le> length data \<and> data ! 0 = 0xFE \<and> data ! 1 = 0xFF) = (take 2 data = [0xFE, 0xFF])" for data :: "byte list"
  by (cases data; cases "tl data") auto


lemma isUTF16_unfold:
  "isUTF16 data =
     Some (if take 2 data = [0xFF, 0xFE] then True
           else if take 2 data = [0xFE, 0xFF] then True
           else if length data mod 2 = 0 \<and> 10 < length data
           then float64 (3 / 10)
                  < float64 (float64 (of_nat (zero_odd_count data))
                               / float64 (of_nat (length data div 2)))
           else False)"
proof (cases "2 \<le> length data")
  case True
  then have "elem data 0 = Some (data ! 0)" and "elem data 1 = Some (data ! 1)"
    by (auto simp add: elem_def)
  with True show ?thesis
    by (simp add: isUTF16_def count_null_spec_Suc bom_take_LE [symmetric] bom_take_BE [symmetric])
next
  case False
  then have "take 2 data \<noteq> [0xFF, 0xFE]" and "take 2 data \<noteq> [0xFE, 0xFF]"
    using bom_take_LE [of data] bom_take_BE [of data] by blast+
  with False show ?thesis
    by (simp add: isUTF16_def)
qed

text \<open>
  Claim C3: \<open>isUTF16\<close> never fails and returns the answer of the three-step classifier of
  the specification: yes for a leading \<open>0xFF 0xFE\<close> or \<open>0xFE 0xFF\<close> whatever follows;
  otherwise, for an even length greater than 10, yes exactly when the number of zero bytes
  at odd positions divided by half the length exceeds \<open>0.3\<close>; otherwise no. The code
  computes the ratio in \<open>float64\<close>, which agrees with the exact comparison for every
  buffer shorter than \<open>2 ^ 53\<close> bytes, the range in which \<open>float64\<close> represents the
  counts exactly.
\<close>

theorem isUTF16_classifier:
  assumes "length data < 2 ^ 53"
  shows "isUTF16 data = Some (is_utf16_spec data)"
proof (cases "length data mod 2 = 0 \<and> 10 < length data")
  case True
  then have b: "0 < length data div 2" by linarith
  have bound: "length data div 2 \<le> 2 ^ 52" using assms by simp
  have r: "(float64 (3 / 10)
              < float64 (float64 (of_nat (zero_odd_count data))
                           / float64 (of_nat (length data div 2))))
           = ((3 / 10 :: rat) < of_nat (zero_odd_count data) / of_nat (length data div 2))"
    using b zero_odd_count_le bound by (rule float64_ratio)
  show ?thesis
    unfolding isUTF16_unfold is_utf16_spec_def r
    using True by (simp add: even_iff_mod_2_eq_zero)
next
  case False
  then show ?thesis
    by (auto simp add: isUTF16_unfold is_utf16_spec_def)
qed

text \<open>
  Two buffers of even length above 10 with no mark: in the first every odd position holds
  a zero byte; in the second, of 20 bytes, exactly 3 of the 10 odd positions do, so the
  ratio is \<open>0.3\<close> and does not exceed it.
\<close>

theorem isUTF16_classifier_witness:
  "length [104, 0, 105, 0, 33, 0, 33, 0, 33, 0, 33, 0 :: byte] < 2 ^ 53 \<and>
   isUTF16 [104, 0, 105, 0, 33, 0, 33, 0, 33, 0, 33, 0] = Some True \<and>
   length [97, 0, 98, 0, 99, 0, 100, 101, 102, 103, 104, 105, 106, 107, 108, 109, 110, 111,
           112, 113 :: byte] < 2 ^ 53 \<and>
   isUTF16 [97, 0, 98, 0, 99, 0, 100, 101, 102, 103, 104, 105, 106, 107, 108, 109, 110, 111,
            112, 113] = Some False"
  using
    isUTF16_classifier [of "[104, 0, 105, 0, 33, 0, 33, 0, 33, 0, 33, 0]"]
    isUTF16_classifier [of "[97, 0, 98, 0, 99, 0, 100, 101, 102, 103, 104, 105, 106, 107, 108,
      109, 110, 111, 112, 113]"]
  by (simp add: is_utf16_spec_def zero_odd_count_def upt_rec)

text \<open>The two outer steps hold for buffers of any length.\<close>

lemma isUTF16_mark:
  "take 2 data = [0xFF, 0xFE] \<or> take 2 data = [0xFE, 0xFF] \<Longrightarrow> isUTF16 data = Some True"
  by (auto simp add: isUTF16_unfold)

lemma isUTF16_gate:
  "take 2 data \<noteq> [0xFF, 0xFE] \<Longrightarrow> take 2 data \<noteq> [0xFE, 0xFF] \<Longrightarrow>
   odd (length data) \<or> length data \<le> 10 \<Longrightarrow> isUTF16 data = Some False"
  by (auto simp add: isUTF16_unfold odd_iff_mod_2_eq_one)

section \<open>Properties of \<open>decodeUTF16\<close>\<close>

lemma pair_units_map:
  "length acc = length data div 2 \<Longrightarrow> i \<le> length data div 2 \<Longrightarrow>
   pair_units data le i acc = Some (take i acc @ map (unit_at le data) [i ..< length data div 2])"
proof (induction data le i acc rule: pair_units.induct)
  case (1 data le i acc)
  show ?case
  proof (cases "i < length data div 2")
    case False
    with 1 show ?thesis by (subst pair_units.simps) simp
  next
    case True
    then have i0: "i * 2 < length data" and i1: "i * 2 + 1 < length data" by linarith+
    have u: "(if le
              then do { b0 \<leftarrow> elem data (i * 2); b1 \<leftarrow> elem data (i * 2 + 1);
                        Some ((ucast b0 :: 16 word) OR push_bit 8 (ucast b1)) }
              else do { b1 \<leftarrow> elem data (i * 2 + 1); b0 \<leftarrow> elem data (i * 2);
                        Some ((ucast b1 :: 16 word) OR push_bit 8 (ucast b0)) })
           = Some (unit_at le data i)"
      using i0 i1 by (simp add: unit_at_def elem_def)
    have st: "store acc i (unit_at le data i) = Some (acc[i := unit_at le data i])"
      using True 1(2) by (simp add: store_def)
    have "pair_units data le i acc = pair_units data le (i + 1) (acc[i := unit_at le data i])"
      using True by (subst pair_units.simps) (simp only: u st if_True bind.bind_lunit)
    also have "\<dots> = Some (take (i + 1) (acc[i := unit_at le data i])
                          @ map (unit_at le data) [i + 1 ..< length data div 2])"
      using True 1(2) by (intro 1(1) [OF True u st]) simp_all
    also have "take (i + 1) (acc[i := unit_at le data i]) = take i acc @ [unit_at le data i]"
      using True 1(2) by (simp add: take_Suc_conv_app_nth)
    finally show ?thesis using True by (simp add: upt_conv_Cons)
  qed
qed


lemma decodeUTF16_unfold:
  "decodeUTF16 data =
     Some (let rest = without_mark data; le = (take 2 data \<noteq> [0xFE, 0xFF])
           in if odd (length rest) then string_of_bytes rest
              else string_of_runes (utf16_Decode (map (unit_at le rest) [0 ..< length rest div 2])))"
proof (cases "2 \<le> length data")
  case True
  then have e: "elem data 0 = Some (data ! 0)" "elem data 1 = Some (data ! 1)"
    by (auto simp add: elem_def)
  have le: "(data ! 0 = 0xFF \<and> data ! 1 = 0xFE) = (take 2 data = [0xFF, 0xFE])"
    using True bom_take_LE [of data] by simp
  have be: "(data ! 0 = 0xFE \<and> data ! 1 = 0xFF) = (take 2 data = [0xFE, 0xFF])"
    using True bom_take_BE [of data] by simp
  consider "take 2 data = [0xFF, 0xFE]" | "take 2 data = [0xFE, 0xFF]"
    | "take 2 data \<noteq> [0xFF, 0xFE]" "take 2 data \<noteq> [0xFE, 0xFF]" by blast
  then show ?thesis
  proof cases
    case 1
    then have "data ! 0 = 0xFF \<and> data ! 1 = 0xFE" using le by simp
    with 1 True show ?thesis
      by (simp add: decodeUTF16_def e slice_from_def without_mark_def Let_def pair_units_map
                    odd_iff_mod_2_eq_one)
  next
    case 2
    then have "data ! 0 = 0xFE \<and> data ! 1 = 0xFF" using be by simp
    with 2 True show ?thesis
      by (simp add: decodeUTF16_def e slice_from_def without_mark_def Let_def pair_units_map
                    odd_iff_mod_2_eq_one)
  next
    case 3
    then have "\<not> (data ! 0 = 0xFF \<and> data ! 1 = 0xFE)" "\<not> (data ! 0 = 0xFE \<and> data ! 1 = 0xFF)"
      using le be by simp_all
    with 3 True show ?thesis
      by (auto simp add: decodeUTF16_def e slice_from_def without_mark_def Let_def pair_units_map
                    odd_iff_mod_2_eq_one)
  qed
next
  case False
  then have "take 2 data \<noteq> [0xFF, 0xFE]" and "take 2 data \<noteq> [0xFE, 0xFF]"
    using bom_take_LE [of data] bom_take_BE [of data] by blast+
  with False show ?thesis
    by (simp add: decodeUTF16_def slice_from_def without_mark_def Let_def pair_units_map
                  odd_iff_mod_2_eq_one)
qed

text \<open>
  Claim C4: when an odd number of bytes is left after a leading byte-order mark has been
  stripped, \<open>decodeUTF16\<close> does not fail: it returns those bytes converted to a string as
  they are.
\<close>

theorem decodeUTF16_odd_fallback:
  assumes "odd (length (without_mark data))"
  shows "decodeUTF16 data = Some (string_of_bytes (without_mark data))"
  using assms by (simp add: decodeUTF16_unfold Let_def)

theorem decodeUTF16_odd_fallback_witness:
  "odd (length (without_mark [0xFF, 0xFE, 0x41])) \<and>
   decodeUTF16 [0xFF, 0xFE, 0x41] = Some ''A''"
  using decodeUTF16_odd_fallback [of "[0xFF, 0xFE, 0x41]"]
  by (simp add: without_mark_def string_of_bytes_def char_of_byte_def char_of_def bit_0)

lemma decodeUTF16_total: "\<exists>s. decodeUTF16 data = Some s"
  by (simp add: decodeUTF16_unfold)

lemma isUTF16_total: "\<exists>b. isUTF16 data = Some b"
  by (simp add: isUTF16_unfold)

subsection \<open>The round trip\<close>

lemma unit_roundtrip_LE:
  "(ucast (ucast u :: byte) :: 16 word) OR push_bit 8 (ucast (ucast (drop_bit 8 u :: 16 word) :: byte)) = u"
  by (rule bit_word_eqI) (auto simp add: bit_simps)

lemma length_bytes_LE [simp]: "length (bytes_LE us) = 2 * length us"
  by (induction us) (simp_all add: bytes_LE_def)

lemma length_bytes_BE [simp]: "length (bytes_BE us) = 2 * length us"
  by (induction us) (simp_all add: bytes_BE_def)

lemma bytes_LE_Cons: "bytes_LE (u # us) = ucast u # ucast (drop_bit 8 u) # bytes_LE us"
  by (simp add: bytes_LE_def)

lemma bytes_BE_Cons: "bytes_BE (u # us) = ucast (drop_bit 8 u) # ucast u # bytes_BE us"
  by (simp add: bytes_BE_def)

lemma unit_at_Cons: "unit_at le (a # b # data) (Suc j) = unit_at le data j"
  by (simp add: unit_at_def)

lemma units_of_bytes_LE: "map (unit_at True (bytes_LE us)) [0 ..< length us] = us"
proof (induction us)
  case Nil
  then show ?case by simp
next
  case (Cons u us)
  have "map (unit_at True (bytes_LE (u # us))) [0 ..< length (u # us)]
      = unit_at True (bytes_LE (u # us)) 0 # map (\<lambda>j. unit_at True (bytes_LE (u # us)) (Suc j)) [0 ..< length us]"
    by (simp add: upt_conv_Cons map_Suc_upt [symmetric] del: upt_Suc)
  also have "unit_at True (bytes_LE (u # us)) 0 = u"
    by (simp add: unit_at_def bytes_LE_Cons unit_roundtrip_LE)
  also have "map (\<lambda>j. unit_at True (bytes_LE (u # us)) (Suc j)) [0 ..< length us]
      = map (unit_at True (bytes_LE us)) [0 ..< length us]"
    by (simp add: bytes_LE_Cons unit_at_Cons)
  finally show ?case using Cons by simp
qed

lemma units_of_bytes_BE: "map (unit_at False (bytes_BE us)) [0 ..< length us] = us"
proof (induction us)
  case Nil
  then show ?case by simp
next
  case (Cons u us)
  have "map (unit_at False (bytes_BE (u # us))) [0 ..< length (u # us)]
      = unit_at False (bytes_BE (u # us)) 0 # map (\<lambda>j. unit_at False (bytes_BE (u # us)) (Suc j)) [0 ..< length us]"
    by (simp add: upt_conv_Cons map_Suc_upt [symmetric] del: upt_Suc)
  also have "unit_at False (bytes_BE (u # us)) 0 = u"
    by (simp add: unit_at_def bytes_BE_Cons unit_roundtrip_LE)
  also have "map (\<lambda>j. unit_at False (bytes_BE (u # us)) (Suc j)) [0 ..< length us]
      = map (unit_at False (bytes_BE us)) [0 ..< length us]"
    by (simp add: bytes_BE_Cons unit_at_Cons)
  finally show ?case using Cons by simp
qed


lemma utf16_Decode_single:
  "u < 0xd800 \<or> 0xe000 \<le> u \<Longrightarrow> utf16_Decode (u # rest) = uint u # utf16_Decode rest"
  by (cases rest) simp_all

lemma utf16_Decode_pair:
  "0xd800 \<le> u \<Longrightarrow> u < 0xdc00 \<Longrightarrow> 0xdc00 \<le> u2 \<Longrightarrow> u2 < 0xe000 \<Longrightarrow>
   utf16_Decode (u # u2 # rest) = DecodeRune (uint u) (uint u2) # utf16_Decode rest"
  by (auto simp add: word_less_alt word_le_def)

lemma join_halves: "push_bit 10 (c div 0x400) OR (c mod 0x400) = c" for c :: int
proof -
  have "push_bit 10 (drop_bit 10 c) OR take_bit 10 c = c"
    by (rule bit_eqI) (auto simp add: bit_simps)
  then show ?thesis by (simp add: drop_bit_eq_div take_bit_eq_mod)
qed

lemma uint_unit: "0 \<le> x \<Longrightarrow> x < 0x10000 \<Longrightarrow> uint (word_of_int x :: 16 word) = x"
  by (simp add: uint_word_of_int)

lemma Decode_EncodeRune:
  assumes "scalar_value c"
  shows "utf16_Decode (EncodeRune c @ rest) = c # utf16_Decode rest"
proof (cases "c < 0x10000")
  case True
  let ?u = "word_of_int c :: 16 word"
  have u: "uint ?u = c" using assms True by (simp add: uint_unit scalar_value_def)
  have "?u < 0xd800 \<or> 0xe000 \<le> ?u"
    using assms by (auto simp add: word_less_alt word_le_def u scalar_value_def)
  then show ?thesis using True u by (simp add: EncodeRune_def utf16_Decode_single)
next
  case False
  define d where "d = c - 0x10000"
  define hi where "hi = 0xD800 + d div 0x400"
  define lo where "lo = 0xDC00 + d mod 0x400"
  have d: "0 \<le> d" "d < 0x100000" using assms False by (simp_all add: d_def scalar_value_def)
  have hi: "0xD800 \<le> hi" "hi < 0xDC00" using d by (simp_all add: hi_def)
  have lo: "0xDC00 \<le> lo" "lo < 0xE000" using d by (simp_all add: lo_def)
  have uhi: "uint (word_of_int hi :: 16 word) = hi" using hi by (intro uint_unit) simp_all
  have ulo: "uint (word_of_int lo :: 16 word) = lo" using lo by (intro uint_unit) simp_all
  have "utf16_Decode (word_of_int hi # word_of_int lo # rest)
      = DecodeRune (uint (word_of_int hi :: 16 word)) (uint (word_of_int lo :: 16 word))
          # utf16_Decode rest"
    using hi lo
    by (intro utf16_Decode_pair) (simp_all add: word_less_alt word_le_def uhi ulo)
  moreover have "DecodeRune hi lo = c"
    using hi lo join_halves [of d] by (simp add: DecodeRune_def d_def hi_def lo_def)
  moreover have "EncodeRune c = [word_of_int hi, word_of_int lo]"
    using False by (simp only: EncodeRune_def hi_def lo_def d_def if_False)
  ultimately show ?thesis by (simp add: uhi ulo)
qed

lemma Decode_Encode:
  "\<forall>c \<in> set cs. scalar_value c \<Longrightarrow> utf16_Decode (utf16_Encode cs) = cs"
proof (induction cs)
  case Nil
  then show ?case by (simp add: utf16_Encode_def)
next
  case (Cons c cs)
  then have "utf16_Decode (EncodeRune c @ utf16_Encode cs) = c # utf16_Decode (utf16_Encode cs)"
    by (intro Decode_EncodeRune) simp
  with Cons show ?case by (simp add: utf16_Encode_def)
qed


lemma without_mark_LE [simp]: "without_mark (0xFF # 0xFE # data) = data"
  by (simp add: without_mark_def)

lemma without_mark_BE [simp]: "without_mark (0xFE # 0xFF # data) = data"
  by (simp add: without_mark_def)

lemma decodeUTF16_LE_mark:
  "decodeUTF16 (0xFF # 0xFE # bytes_LE us) = Some (string_of_runes (utf16_Decode us))"
  by (simp add: decodeUTF16_unfold Let_def units_of_bytes_LE)

lemma decodeUTF16_BE_mark:
  "decodeUTF16 (0xFE # 0xFF # bytes_BE us) = Some (string_of_runes (utf16_Decode us))"
  by (simp add: decodeUTF16_unfold Let_def units_of_bytes_BE)

lemma decodeUTF16_no_mark:
  assumes "take 2 (bytes_LE us) \<noteq> [0xFF, 0xFE]" and "take 2 (bytes_LE us) \<noteq> [0xFE, 0xFF]"
  shows "decodeUTF16 (bytes_LE us) = Some (string_of_runes (utf16_Decode us))"
  using assms by (simp add: decodeUTF16_unfold Let_def units_of_bytes_LE without_mark_def)

text \<open>
  Claim C5: a text, encoded in UTF-16 little-endian behind the mark \<open>0xFF 0xFE\<close>, is
  decoded to the string of that text, surrogate pairs included. The mark fixes the byte
  order: behind \<open>0xFF 0xFE\<close> the bytes are paired low byte first, behind \<open>0xFE 0xFF\<close> high
  byte first, and a buffer with no mark is paired low byte first. The last three
  conjuncts say so for arbitrary code units \<open>us\<close>.
\<close>

theorem decodeUTF16_roundtrip:
  assumes "\<forall>c \<in> set cs. scalar_value c"
  shows "decodeUTF16 ([0xFF, 0xFE] @ bytes_LE (utf16_Encode cs)) = Some (string_of_runes cs) \<and>
         decodeUTF16 ([0xFE, 0xFF] @ bytes_BE (utf16_Encode cs)) = Some (string_of_runes cs) \<and>
         (take 2 (bytes_LE (utf16_Encode cs)) \<noteq> [0xFF, 0xFE] \<and>
          take 2 (bytes_LE (utf16_Encode cs)) \<noteq> [0xFE, 0xFF] \<longrightarrow>
            decodeUTF16 (bytes_LE (utf16_Encode cs)) = Some (string_of_runes cs)) \<and>
         decodeUTF16 ([0xFF, 0xFE] @ bytes_LE us) = Some (string_of_runes (utf16_Decode us)) \<and>
         decodeUTF16 ([0xFE, 0xFF] @ bytes_BE us) = Some (string_of_runes (utf16_Decode us)) \<and>
         (take 2 (bytes_LE us) \<noteq> [0xFF, 0xFE] \<and> take 2 (bytes_LE us) \<noteq> [0xFE, 0xFF] \<longrightarrow>
            decodeUTF16 (bytes_LE us) = Some (string_of_runes (utf16_Decode us)))"
  using Decode_Encode [OF assms]
  by (simp add: decodeUTF16_LE_mark decodeUTF16_BE_mark decodeUTF16_no_mark)

lemma example_bytes: "bytes_LE (utf16_Encode [0x48, 0x1F600]) = [0x48, 0x00, 0x3D, 0xD8, 0x00, 0xDE]"
  by (simp add: bytes_LE_def utf16_Encode_def EncodeRune_def)

lemma example_string: "string_of_runes [0x48, 0x1F600] = [CHR 0x48, CHR 0xF0, CHR 0x9F, CHR 0x98, CHR 0x80]"
  by (simp add: string_of_runes_def AppendRune_def char_of_def bit_0 bit_simps)


theorem decodeUTF16_roundtrip_witness:
  "scalar_value 0x48 \<and> scalar_value 0x1F600 \<and>
   decodeUTF16 [0xFF, 0xFE, 0x48, 0x00, 0x3D, 0xD8, 0x00, 0xDE]
     = Some [CHR 0x48, CHR 0xF0, CHR 0x9F, CHR 0x98, CHR 0x80]"
  using decodeUTF16_roundtrip [of "[0x48, 0x1F600]" "[]"]
  by (simp add: example_bytes example_string scalar_value_def)

section \<open>Properties of \<open>strings.TrimSpace\<close>\<close>

lemma space_encodings_nonempty: "w \<in> set space_encodings \<Longrightarrow> w \<noteq> []"
  by (auto simp add: space_encodings_def)

lemma leading_space_0_iff:
  "(leading_space s = 0) = (\<forall>w \<in> set space_encodings. \<not> prefix w s)"
proof (cases "find (\<lambda>w. prefix w s) space_encodings")
  case None
  then have "\<forall>w \<in> set space_encodings. \<not> prefix w s" by (simp add: find_None_iff)
  with None show ?thesis by (simp add: leading_space_def)
next
  case (Some w)
  then have "w \<in> set space_encodings" and "prefix w s"
    by (auto simp add: find_Some_iff)
  moreover from this have "w \<noteq> []" by (simp add: space_encodings_nonempty)
  ultimately show ?thesis using Some by (auto simp add: leading_space_def)
qed

lemma trailing_space_0_iff:
  "(trailing_space s = 0) = (\<forall>w \<in> set space_encodings. \<not> suffix w s)"
proof (cases "find (\<lambda>w. suffix w s) space_encodings")
  case None
  then have "\<forall>w \<in> set space_encodings. \<not> suffix w s" by (simp add: find_None_iff)
  with None show ?thesis by (simp add: trailing_space_def)
next
  case (Some w)
  then have "w \<in> set space_encodings" and "suffix w s"
    by (auto simp add: find_Some_iff)
  moreover from this have "w \<noteq> []" by (simp add: space_encodings_nonempty)
  ultimately show ?thesis using Some by (auto simp add: trailing_space_def)
qed

lemma TrimLeft_leading: "leading_space (TrimLeft s) = 0"
proof (induction s rule: TrimLeft.induct)
  case (1 s)
  then show ?case by (subst TrimLeft.simps) simp
qed

lemma TrimRight_trailing: "trailing_space (TrimRight s) = 0"
proof (induction s rule: TrimRight.induct)
  case (1 s)
  then show ?case by (subst TrimRight.simps) simp
qed

lemma TrimRight_prefix: "prefix (TrimRight s) s"
proof (induction s rule: TrimRight.induct)
  case (1 s)
  show ?case
  proof (cases "trailing_space s = 0")
    case True
    then show ?thesis by (subst TrimRight.simps) simp
  next
    case False
    with 1 have "prefix (TrimRight (take (length s - trailing_space s) s))
                   (take (length s - trailing_space s) s)" by simp
    then have "prefix (TrimRight (take (length s - trailing_space s) s)) s"
      using take_is_prefix prefix_order.trans by blast
    with False show ?thesis by (subst TrimRight.simps) simp
  qed
qed

lemma TrimLeft_suffix: "suffix (TrimLeft s) s"
proof (induction s rule: TrimLeft.induct)
  case (1 s)
  show ?case
  proof (cases "leading_space s = 0")
    case True
    then show ?thesis by (subst TrimLeft.simps) simp
  next
    case False
    with 1 have "suffix (TrimLeft (drop (leading_space s) s)) (drop (leading_space s) s)" by simp
    then have "suffix (TrimLeft (drop (leading_space s) s)) s"
      using suffix_drop suffix_order.trans by blast
    with False show ?thesis by (subst TrimLeft.simps) simp
  qed
qed

lemma TrimSpace_trimmed:
  "leading_space (TrimSpace s) = 0 \<and> trailing_space (TrimSpace s) = 0 \<and> sublist (TrimSpace s) s"
proof -
  have "\<forall>w \<in> set space_encodings. \<not> prefix w (TrimLeft s)"
    using TrimLeft_leading [of s] by (simp add: leading_space_0_iff)
  then have "\<forall>w \<in> set space_encodings. \<not> prefix w (TrimRight (TrimLeft s))"
    using TrimRight_prefix [of "TrimLeft s"] prefix_order.trans by blast
  then have "leading_space (TrimSpace s) = 0"
    by (simp add: leading_space_0_iff TrimSpace_def)
  moreover have "trailing_space (TrimSpace s) = 0"
    by (simp add: TrimSpace_def TrimRight_trailing)
  moreover have "sublist (TrimSpace s) s"
  proof -
    obtain b where "TrimLeft s = TrimRight (TrimLeft s) @ b"
      using TrimRight_prefix [of "TrimLeft s"] by (auto elim: prefixE)
    moreover obtain a where "s = a @ TrimLeft s"
      using TrimLeft_suffix [of s] by (auto elim: suffixE)
    ultimately have "s = a @ TrimSpace s @ b" by (simp add: TrimSpace_def)
    then show ?thesis unfolding sublist_def by blast
  qed
  ultimately show ?thesis by simp
qed

text \<open>What \<open>TrimSpace\<close> removes at either end is white space only.\<close>

lemma leading_space_encoding:
  "w \<in> set space_encodings \<Longrightarrow> leading_space (w @ x) = length w"
  unfolding space_encodings_def leading_space_def
  by (elim set_ConsD [elim_format] disjE) simp_all

lemma leading_space_take:
  assumes "leading_space s \<noteq> 0"
  shows "take (leading_space s) s \<in> set space_encodings"
proof (cases "find (\<lambda>w. prefix w s) space_encodings")
  case None
  with assms show ?thesis by (simp add: leading_space_def)
next
  case (Some w)
  then have w: "w \<in> set space_encodings" and "prefix w s"
    by (auto simp add: find_Some_iff)
  then have "take (length w) s = w" by (auto elim: prefixE)
  with Some w show ?thesis by (simp add: leading_space_def)
qed

lemma trailing_space_drop:
  assumes "trailing_space s \<noteq> 0"
  shows "drop (length s - trailing_space s) s \<in> set space_encodings"
proof (cases "find (\<lambda>w. suffix w s) space_encodings")
  case None
  with assms show ?thesis by (simp add: trailing_space_def)
next
  case (Some w)
  then have w: "w \<in> set space_encodings" and "suffix w s"
    by (auto simp add: find_Some_iff)
  then have "drop (length s - length w) s = w" by (auto elim: suffixE)
  with Some w show ?thesis by (simp add: trailing_space_def)
qed

lemma white_space_Nil: "white_space []"
  by (subst white_space.simps) simp

lemma white_space_encoding_append:
  assumes "w \<in> set space_encodings" and "white_space x"
  shows "white_space (w @ x)"
proof -
  from assms(1) have "w \<noteq> []" by (rule space_encodings_nonempty)
  with assms leading_space_encoding [OF assms(1), of x] show ?thesis
    by (subst white_space.simps) simp
qed

lemma white_space_append: "white_space a \<Longrightarrow> white_space b \<Longrightarrow> white_space (a @ b)"
proof (induction a rule: white_space.induct)
  case (1 s)
  show ?case
  proof (cases "s = []")
    case True
    with 1 show ?thesis by simp
  next
    case False
    from 1(2) False have n: "leading_space s \<noteq> 0" and rest: "white_space (drop (leading_space s) s)"
      by (subst (asm) white_space.simps, simp split: if_splits)+
    have "white_space (drop (leading_space s) s @ b)"
      using 1(1) [OF False n rest 1(3)] .
    then have "white_space (take (leading_space s) s @ (drop (leading_space s) s @ b))"
      by (rule white_space_encoding_append [OF leading_space_take [OF n]])
    then show ?thesis by (simp flip: append_assoc)
  qed
qed

lemma TrimLeft_removed: "\<exists>lead. s = lead @ TrimLeft s \<and> white_space lead"
proof (induction s rule: TrimLeft.induct)
  case (1 s)
  show ?case
  proof (cases "leading_space s = 0")
    case True
    then have "TrimLeft s = s" by (subst TrimLeft.simps) simp
    then show ?thesis using white_space_Nil by auto
  next
    case False
    then obtain lead where l: "drop (leading_space s) s = lead @ TrimLeft (drop (leading_space s) s)"
      and w: "white_space lead" using 1 by blast
    have t: "TrimLeft s = TrimLeft (drop (leading_space s) s)"
      using False by (subst TrimLeft.simps) simp
    have "s = take (leading_space s) s @ drop (leading_space s) s" by simp
    then have "s = (take (leading_space s) s @ lead) @ TrimLeft s"
      using l t by (metis append.assoc)
    moreover have "white_space (take (leading_space s) s @ lead)"
      by (rule white_space_encoding_append [OF leading_space_take [OF False] w])
    ultimately show ?thesis by blast
  qed
qed

lemma TrimRight_removed: "\<exists>trail. s = TrimRight s @ trail \<and> white_space trail"
proof (induction s rule: TrimRight.induct)
  case (1 s)
  show ?case
  proof (cases "trailing_space s = 0")
    case True
    then have "TrimRight s = s" by (subst TrimRight.simps) simp
    then show ?thesis using white_space_Nil by auto
  next
    case False
    let ?k = "length s - trailing_space s"
    from False obtain trail where l: "take ?k s = TrimRight (take ?k s) @ trail"
      and w: "white_space trail" using 1 by blast
    have t: "TrimRight s = TrimRight (take ?k s)"
      using False by (subst TrimRight.simps) simp
    have "s = take ?k s @ drop ?k s" by simp
    then have "s = TrimRight s @ (trail @ drop ?k s)"
      using l t by (metis append.assoc)
    moreover have "white_space (drop ?k s @ [])"
      by (rule white_space_encoding_append [OF trailing_space_drop [OF False] white_space_Nil])
    then have "white_space (trail @ drop ?k s)"
      using w by (simp add: white_space_append)
    ultimately show ?thesis by blast
  qed
qed

lemma TrimSpace_removed:
  "\<exists>lead trail. s = lead @ TrimSpace s @ trail \<and> white_space lead \<and> white_space trail"
proof -
  obtain lead where "s = lead @ TrimLeft s" and "white_space lead"
    using TrimLeft_removed by blast
  moreover obtain trail where "TrimLeft s = TrimRight (TrimLeft s) @ trail" and "white_space trail"
    using TrimRight_removed by blast
  ultimately have "s = lead @ TrimSpace s @ trail \<and> white_space lead \<and> white_space trail"
    by (simp add: TrimSpace_def)
  then show ?thesis by blast
qed

section \<open>Properties of \<open>executeCommand\<close>\<close>

lemma isUTF16_Nil: "isUTF16 [] = Some False"
  by (simp add: isUTF16_unfold)

lemma processOutput_Some:
  assumes "isUTF16 data = Some u" and "decodeUTF16 data = Some t"
  shows "processOutput data v dbg =
    Some (if u then t else string_of_bytes data,
          if v \<and> data \<noteq> []
          then dbg @ (if u then ''UTF-16 encoding detected, decoding...\<newline>''
                      else ''Using standard UTF-8 processing\<newline>'')
          else dbg)"
proof (cases "data = []")
  case True
  with assms have "u = False" by (simp add: isUTF16_Nil)
  with True show ?thesis by (simp add: processOutput_def string_of_bytes_def)
next
  case False
  with assms show ?thesis by (simp add: processOutput_def Let_def)
qed

lemma dispatch_trace:
  "Verbose req \<Longrightarrow>
     snd (dispatch goos req) =
       ''Executing command: '' @ Command req @ ''\<newline>''
       @ ''Type: '' @ Type req @ '', Headless: '' @ fmt_t (Headless req)
       @ '', PersistWindow: '' @ fmt_t (PersistWindow req) @ ''\<newline>''
       @ (if Headless req then ''Running in headless mode (window hidden)\<newline>''
          else ''Running in headed mode (new window created)\<newline>'')
       @ ''Command args: '' @ fmt_v (Args (fst (dispatch goos req))) @ ''\<newline>''"
  by (simp add: dispatch_def Let_def split_def)

lemma dispatch_trace_PersistWindow:
  assumes "Verbose req"
  shows "\<exists>front rest. snd (dispatch goos req)
     = front @ ('', PersistWindow: '' @ fmt_t (PersistWindow req)) @ rest"
  apply (rule exI [of _ "''Executing command: '' @ Command req @ ''\<newline>''
       @ ''Type: '' @ Type req @ '', Headless: '' @ fmt_t (Headless req)"])
  apply (rule exI [of _ "''\<newline>''
       @ (if Headless req then ''Running in headless mode (window hidden)\<newline>''
          else ''Running in headed mode (new window created)\<newline>'')
       @ ''Command args: '' @ fmt_v (Args (fst (dispatch goos req))) @ ''\<newline>''"])
  apply (simp add: dispatch_trace [OF assms])
  done

lemma dispatch_verbose_prefix:
  "Verbose req \<Longrightarrow>
     \<exists>rest. snd (dispatch goos req) = ''Executing command: '' @ Command req @ rest"
  by (simp add: dispatch_def Let_def split_def)

lemma executeCommand_run_Some:
  assumes d: "dispatch (GOOS env) req = (cmd, d0)"
    and c: "CombinedOutput env cmd = (out, err)"
    and u: "isUTF16 out = Some u" and t: "decodeUTF16 out = Some t"
  shows "\<exists>trace. executeCommand_run env req =
    Some (\<lparr>Output = TrimSpace (if u then t else string_of_bytes out),
           Error = (case err of None \<Rightarrow> [] | Some e \<Rightarrow> e),
           Duration = Milliseconds env,
           Debug = (if Verbose req then d0 @ trace else [])\<rparr>,
          if Verbose req then d0 @ trace else d0)"
  by (cases err; cases "Verbose req")
     (simp_all add: executeCommand_run_def d c processOutput_Some [OF u t] Let_def)


lemma executeCommand_run_quiet:
  assumes "\<not> Verbose req"
    and c: "CombinedOutput env (fst (dispatch (GOOS env) req)) = (out, err)"
    and u: "isUTF16 out = Some u" and t: "decodeUTF16 out = Some t"
  shows "executeCommand_run env req =
    Some (\<lparr>Output = TrimSpace (if u then t else string_of_bytes out),
           Error = (case err of None \<Rightarrow> [] | Some e \<Rightarrow> e),
           Duration = Milliseconds env,
           Debug = []\<rparr>, [])"
proof -
  obtain cmd d0 where d: "dispatch (GOOS env) req = (cmd, d0)" by fastforce
  with assms(1) dispatch_quiet [of req "GOOS env"] have "d0 = []" by simp
  moreover from d c have "CombinedOutput env cmd = (out, err)" by simp
  ultimately show ?thesis
    using executeCommand_run_Some [OF d _ u t] assms(1) by simp
qed

lemma executeCommand_type_quiet:
  assumes "\<not> Verbose req"
    and c: "CombinedOutput env (fst (dispatch_type (GOOS env) req)) = (out, err)"
  shows "executeCommand_type env req =
    Some \<lparr>Output = TrimSpace (string_of_bytes out),
          Error = (case err of None \<Rightarrow> [] | Some e \<Rightarrow> e),
          Duration = Milliseconds env,
          Debug = []\<rparr>"
  using assms by (cases err) (simp_all add: executeCommand_type_def Let_def split_def)

text \<open>
  Claim C6: every call returns a response. With \<open>verbose = false\<close> its \<open>Debug\<close> field is
  empty and nothing was written to the builder: it is empty at the end of the call, hence
  at every point before, since writing only appends (what the dispatcher wrote is a
  prefix of the final content), and in particular after the dispatcher. With
  \<open>verbose = true\<close> the \<open>Debug\<close> field is the final content of the builder, is not empty
  and contains the command text of the request.
\<close>

theorem verbose_trace:
  "\<exists>resp trace. executeCommand_run env req = Some (resp, trace) \<and>
     executeCommand env req = Some resp \<and>
     prefix (snd (dispatch (GOOS env) req)) trace \<and>
     (if Verbose req
      then Debug resp = trace \<and> Debug resp \<noteq> [] \<and> sublist (Command req) (Debug resp)
      else Debug resp = [] \<and> trace = [] \<and> snd (dispatch (GOOS env) req) = [])"
proof -
  obtain cmd d0 where d: "dispatch (GOOS env) req = (cmd, d0)" by fastforce
  obtain out err where c: "CombinedOutput env cmd = (out, err)" by fastforce
  obtain u where u: "isUTF16 out = Some u" using isUTF16_total by blast
  obtain t where t: "decodeUTF16 out = Some t" using decodeUTF16_total by blast
  from executeCommand_run_Some [OF d c u t] obtain resp trace tr
    where run: "executeCommand_run env req = Some (resp, trace)"
      and dbg: "Debug resp = (if Verbose req then d0 @ tr else [])"
      and trace: "trace = (if Verbose req then d0 @ tr else d0)"
    by fastforce
  have pre: "prefix (snd (dispatch (GOOS env) req)) trace"
    using d trace by simp
  show ?thesis
  proof (cases "Verbose req")
    case True
    then obtain rest where "d0 = ''Executing command: '' @ Command req @ rest"
      using dispatch_verbose_prefix [of req "GOOS env"] d by auto
    with True dbg have "Debug resp = ''Executing command: '' @ Command req @ (rest @ tr)"
      by simp
    then have "Debug resp \<noteq> []" and "sublist (Command req) (Debug resp)"
      by (simp, metis sublist_appendI)
    with True run pre dbg trace show ?thesis by (simp add: executeCommand_def)
  next
    case False
    with dispatch_quiet [of req "GOOS env"] d have "d0 = []" by simp
    with False run dbg trace d show ?thesis by (simp add: executeCommand_def)
  qed
qed

theorem verbose_trace_witness:
  "(\<exists>resp trace.
      executeCommand_run
        \<lparr>GOOS = ''windows'', CombinedOutput = (\<lambda>cmd. ([0x68, 0x69, 0x0D, 0x0A], None)),
         Milliseconds = 12\<rparr>
        \<lparr>Command = ''echo hi'', Type = ''cmd'', Headless = True, Verbose = False,
         PersistWindow = False\<rparr> = Some (resp, trace) \<and>
      Debug resp = [] \<and> trace = []) \<and>
   (\<exists>resp.
      executeCommand
        \<lparr>GOOS = ''windows'', CombinedOutput = (\<lambda>cmd. ([0x68, 0x69, 0x0D, 0x0A], None)),
         Milliseconds = 12\<rparr>
        \<lparr>Command = ''echo hi'', Type = ''cmd'', Headless = True, Verbose = True,
         PersistWindow = False\<rparr> = Some resp \<and>
      Debug resp \<noteq> [] \<and> sublist ''echo hi'' (Debug resp))"
  using
    verbose_trace [of
      "\<lparr>GOOS = ''windows'', CombinedOutput = (\<lambda>cmd. ([0x68, 0x69, 0x0D, 0x0A], None)),
        Milliseconds = 12\<rparr>"
      "\<lparr>Command = ''echo hi'', Type = ''cmd'', Headless = True, Verbose = False,
        PersistWindow = False\<rparr>"]
    verbose_trace [of
      "\<lparr>GOOS = ''windows'', CombinedOutput = (\<lambda>cmd. ([0x68, 0x69, 0x0D, 0x0A], None)),
        Milliseconds = 12\<rparr>"
      "\<lparr>Command = ''echo hi'', Type = ''cmd'', Headless = True, Verbose = True,
        PersistWindow = False\<rparr>"]
  by auto

lemma executeCommand_fields:
  assumes c: "CombinedOutput env (fst (dispatch (GOOS env) req)) = (out, err)"
    and u: "isUTF16 out = Some u" and t: "decodeUTF16 out = Some t"
  shows "\<exists>resp. executeCommand env req = Some resp \<and>
     Output resp = TrimSpace (if u then t else string_of_bytes out) \<and>
     Error resp = (case err of None \<Rightarrow> [] | Some e \<Rightarrow> e) \<and>
     Duration resp = Milliseconds env"
proof -
  obtain cmd d0 where d: "dispatch (GOOS env) req = (cmd, d0)" by fastforce
  with c have "CombinedOutput env cmd = (out, err)" by simp
  from executeCommand_run_Some [OF d this u t] show ?thesis
    by (auto simp add: executeCommand_def)
qed

lemma executeCommand_type_fields:
  assumes c: "CombinedOutput env (fst (dispatch_type (GOOS env) req)) = (out, err)"
  shows "\<exists>resp. executeCommand_type env req = Some resp \<and>
     Output resp = TrimSpace (string_of_bytes out) \<and>
     Error resp = (case err of None \<Rightarrow> [] | Some e \<Rightarrow> e) \<and>
     Duration resp = Milliseconds env"
  using assms
  by (cases err; cases "Verbose req") (simp_all add: executeCommand_type_def Let_def split_def)

text \<open>
  Claim C7: when running the command fails with the error text \<open>e\<close>, \<open>executeCommand\<close>
  still returns a response; its \<open>Error\<close> field is \<open>e\<close>, and its \<open>Output\<close> and \<open>Duration\<close>
  are those of the same run without the error. This holds for the \<open>executeCommand\<close> of
  \<open>main.go\<close> and for the one of \<open>type.go\<close>.
\<close>

theorem error_is_captured:
  assumes "CombinedOutput env (fst (dispatch (GOOS env) req)) = (out, Some e)"
  shows "\<exists>resp resp0 rt rt0.
     executeCommand env req = Some resp \<and> Error resp = e \<and>
     executeCommand (env\<lparr>CombinedOutput := \<lambda>cmd. (out, None)\<rparr>) req = Some resp0 \<and>
     Error resp0 = [] \<and> Output resp = Output resp0 \<and> Duration resp = Duration resp0 \<and>
     executeCommand_type env (Request_type.truncate req) = Some rt \<and> Error rt = e \<and>
     executeCommand_type (env\<lparr>CombinedOutput := \<lambda>cmd. (out, None)\<rparr>)
       (Request_type.truncate req) = Some rt0 \<and>
     Error rt0 = [] \<and> Output rt = Output rt0 \<and> Duration rt = Duration rt0"
proof -
  let ?env0 = "env\<lparr>CombinedOutput := \<lambda>cmd. (out, None)\<rparr>"
  obtain u where u: "isUTF16 out = Some u" using isUTF16_total by blast
  obtain t where t: "decodeUTF16 out = Some t" using decodeUTF16_total by blast
  have c0: "CombinedOutput ?env0 (fst (dispatch (GOOS ?env0) req)) = (out, None)" by simp
  have ct: "CombinedOutput env (fst (dispatch_type (GOOS env) (Request_type.truncate req)))
      = (out, Some e)"
    using assms by (simp add: dispatch_type_cmd)
  have ct0: "CombinedOutput ?env0 (fst (dispatch_type (GOOS ?env0) (Request_type.truncate req)))
      = (out, None)" by simp
  from executeCommand_fields [OF assms u t] obtain resp where
    "executeCommand env req = Some resp" "Error resp = e"
    "Output resp = TrimSpace (if u then t else string_of_bytes out)"
    "Duration resp = Milliseconds env" by auto
  moreover from executeCommand_fields [OF c0 u t] obtain resp0 where
    "executeCommand ?env0 req = Some resp0" "Error resp0 = []"
    "Output resp0 = TrimSpace (if u then t else string_of_bytes out)"
    "Duration resp0 = Milliseconds env" by auto
  moreover from executeCommand_type_fields [OF ct] obtain rt where
    "executeCommand_type env (Request_type.truncate req) = Some rt" "Error rt = e"
    "Output rt = TrimSpace (string_of_bytes out)" "Duration rt = Milliseconds env" by auto
  moreover from executeCommand_type_fields [OF ct0] obtain rt0 where
    "executeCommand_type ?env0 (Request_type.truncate req) = Some rt0" "Error rt0 = []"
    "Output rt0 = TrimSpace (string_of_bytes out)" "Duration rt0 = Milliseconds env" by auto
  ultimately show ?thesis by simp
qed

theorem error_is_captured_witness:
  "CombinedOutput
     \<lparr>GOOS = ''windows'', CombinedOutput = (\<lambda>cmd. ([0x6E, 0x6F, 0x0A], Some ''exit status 1'')),
      Milliseconds = 12\<rparr>
     (fst (dispatch ''windows''
        \<lparr>Command = ''exit 1'', Type = ''cmd'', Headless = True, Verbose = False,
         PersistWindow = False\<rparr>))
     = ([0x6E, 0x6F, 0x0A], Some ''exit status 1'') \<and>
   (\<exists>resp.
      executeCommand
        \<lparr>GOOS = ''windows'', CombinedOutput = (\<lambda>cmd. ([0x6E, 0x6F, 0x0A], Some ''exit status 1'')),
         Milliseconds = 12\<rparr>
        \<lparr>Command = ''exit 1'', Type = ''cmd'', Headless = True, Verbose = False,
         PersistWindow = False\<rparr> = Some resp \<and>
      Error resp = ''exit status 1'')"
  using
    error_is_captured [of
      "\<lparr>GOOS = ''windows'', CombinedOutput = (\<lambda>cmd. ([0x6E, 0x6F, 0x0A], Some ''exit status 1'')),
        Milliseconds = 12\<rparr>"
      "\<lparr>Command = ''exit 1'', Type = ''cmd'', Headless = True, Verbose = False,
        PersistWindow = False\<rparr>"
      "[0x6E, 0x6F, 0x0A]" "''exit status 1''"]
  by auto

text \<open>
  Claim C9: changing \<open>PersistWindow\<close> changes neither the command that is built nor, for a
  request with \<open>verbose = false\<close>, the response; for any request the two responses differ
  at most in \<open>Debug\<close>, where a request with \<open>verbose = true\<close> has the field echoed.
\<close>

theorem PersistWindow_noninterference:
  "fst (dispatch (GOOS env) (req\<lparr>PersistWindow := b\<rparr>)) = fst (dispatch (GOOS env) req) \<and>
   (\<not> Verbose req \<longrightarrow>
      executeCommand env (req\<lparr>PersistWindow := b\<rparr>) = executeCommand env req) \<and>
   map_option (\<lambda>resp. resp\<lparr>Debug := []\<rparr>) (executeCommand env (req\<lparr>PersistWindow := b\<rparr>))
     = map_option (\<lambda>resp. resp\<lparr>Debug := []\<rparr>) (executeCommand env req) \<and>
   (Verbose req \<longrightarrow>
      (\<exists>resp. executeCommand env req = Some resp \<and>
         sublist ('', PersistWindow: '' @ fmt_t (PersistWindow req)) (Debug resp)))"
proof -
  let ?req' = "req\<lparr>PersistWindow := b\<rparr>"
  obtain cmd d0 where d: "dispatch (GOOS env) req = (cmd, d0)" by fastforce
  obtain cmd' d0' where d': "dispatch (GOOS env) ?req' = (cmd', d0')" by fastforce
  have cmd: "cmd' = cmd"
    using dispatch_PersistWindow [where goos = "GOOS env" and req = req and b = b] d d' by simp
  obtain out err where c: "CombinedOutput env cmd = (out, err)" by fastforce
  obtain u where u: "isUTF16 out = Some u" using isUTF16_total by blast
  obtain t where t: "decodeUTF16 out = Some t" using decodeUTF16_total by blast
  from executeCommand_run_Some [OF d c u t] obtain tr where
    r: "executeCommand env req =
      Some \<lparr>Output = TrimSpace (if u then t else string_of_bytes out),
            Error = (case err of None \<Rightarrow> [] | Some e \<Rightarrow> e),
            Duration = Milliseconds env,
            Debug = (if Verbose req then d0 @ tr else [])\<rparr>"
    by (auto simp add: executeCommand_def)
  from executeCommand_run_Some [OF d' c [folded cmd] u t] obtain tr' where
    r': "executeCommand env ?req' =
      Some \<lparr>Output = TrimSpace (if u then t else string_of_bytes out),
            Error = (case err of None \<Rightarrow> [] | Some e \<Rightarrow> e),
            Duration = Milliseconds env,
            Debug = (if Verbose req then d0' @ tr' else [])\<rparr>"
    by (auto simp add: executeCommand_def)
  have echo: "sublist ('', PersistWindow: '' @ fmt_t (PersistWindow req)) (d0 @ tr)"
    if "Verbose req"
  proof -
    from dispatch_trace_PersistWindow [OF that, of "GOOS env"] d obtain front rest
      where "d0 = front @ ('', PersistWindow: '' @ fmt_t (PersistWindow req)) @ rest" by auto
    then have "d0 @ tr = front @ ('', PersistWindow: '' @ fmt_t (PersistWindow req)) @ (rest @ tr)"
      by simp
    then show ?thesis unfolding sublist_def by blast
  qed
  show ?thesis using d d' cmd r r' echo by simp
qed

theorem PersistWindow_noninterference_witness:
  "\<not> Verbose \<lparr>Command = ''dir'', Type = ''cmd'', Headless = False, Verbose = False,
       PersistWindow = False\<rparr> \<and>
   executeCommand
     \<lparr>GOOS = ''windows'', CombinedOutput = (\<lambda>cmd. ([0x68, 0x69], None)), Milliseconds = 3\<rparr>
     \<lparr>Command = ''dir'', Type = ''cmd'', Headless = False, Verbose = False,
      PersistWindow = True\<rparr>
   = executeCommand
     \<lparr>GOOS = ''windows'', CombinedOutput = (\<lambda>cmd. ([0x68, 0x69], None)), Milliseconds = 3\<rparr>
     \<lparr>Command = ''dir'', Type = ''cmd'', Headless = False, Verbose = False,
      PersistWindow = False\<rparr>"
  using
    PersistWindow_noninterference [of
      "\<lparr>GOOS = ''windows'', CombinedOutput = (\<lambda>cmd. ([0x68, 0x69], None)), Milliseconds = 3\<rparr>"
      True
      "\<lparr>Command = ''dir'', Type = ''cmd'', Headless = False, Verbose = False,
        PersistWindow = False\<rparr>"]
  by simp

text \<open>
  Claim C10: for a request with \<open>verbose = false\<close> whose captured output \<open>isUTF16\<close> does not
  classify as UTF-16, the \<open>executeCommand\<close> of \<open>main.go\<close> and the one of \<open>type.go\<close> build the
  same command and return the same response.
\<close>

theorem variants_agree:
  assumes "\<not> Verbose req"
    and "CombinedOutput env (fst (dispatch (GOOS env) req)) = (out, err)"
    and "isUTF16 out = Some False"
  shows "fst (dispatch_type (GOOS env) (Request_type.truncate req))
           = fst (dispatch (GOOS env) req) \<and>
         executeCommand env req = executeCommand_type env (Request_type.truncate req)"
proof -
  obtain t where t: "decodeUTF16 out = Some t" using decodeUTF16_total by blast
  have q: "\<not> Verbose (Request_type.truncate req)"
    using assms(1) by (simp add: Request_type.truncate_def)
  have c: "CombinedOutput env (fst (dispatch_type (GOOS env) (Request_type.truncate req)))
      = (out, err)"
    using assms(2) by (simp add: dispatch_type_cmd)
  show ?thesis
    using executeCommand_run_quiet [OF assms t] executeCommand_type_quiet [OF q c]
    by (simp add: executeCommand_def dispatch_type_cmd)
qed

theorem variants_agree_witness:
  "\<not> Verbose \<lparr>Command = ''dir'', Type = ''cmd'', Headless = True, Verbose = False,
       PersistWindow = False\<rparr> \<and>
   isUTF16 [0x68, 0x69, 0x0A] = Some False \<and>
   executeCommand
     \<lparr>GOOS = ''windows'', CombinedOutput = (\<lambda>cmd. ([0x68, 0x69, 0x0A], None)), Milliseconds = 3\<rparr>
     \<lparr>Command = ''dir'', Type = ''cmd'', Headless = True, Verbose = False,
      PersistWindow = False\<rparr>
   = executeCommand_type
     \<lparr>GOOS = ''windows'', CombinedOutput = (\<lambda>cmd. ([0x68, 0x69, 0x0A], None)), Milliseconds = 3\<rparr>
     \<lparr>Command = ''dir'', Type = ''cmd'', Headless = True, Verbose = False\<rparr>"
  using
    variants_agree [of
      "\<lparr>Command = ''dir'', Type = ''cmd'', Headless = True, Verbose = False,
        PersistWindow = False\<rparr>"
      "\<lparr>GOOS = ''windows'', CombinedOutput = (\<lambda>cmd. ([0x68, 0x69, 0x0A], None)), Milliseconds = 3\<rparr>"
      "[0x68, 0x69, 0x0A]" None]
  by (simp add: isUTF16_unfold Request_type.truncate_def)

text \<open>
  Claim C8: the \<open>Output\<close> of the response is the captured bytes, decoded by \<open>decodeUTF16\<close>
  when \<open>isUTF16\<close> detects UTF-16 and converted as they are otherwise, with the white space
  at both ends removed by \<open>strings.TrimSpace\<close>: that text is \<open>Output\<close> between a leading
  and a trailing part that consist of white space only, and no white space is left at
  either end of \<open>Output\<close>.
\<close>

theorem output_is_trimmed_normalization:
  assumes "CombinedOutput env (fst (dispatch (GOOS env) req)) = (out, err)"
  shows "\<exists>resp detected decoded lead trail.
     executeCommand env req = Some resp \<and>
     isUTF16 out = Some detected \<and> decodeUTF16 out = Some decoded \<and>
     (if detected then decoded else string_of_bytes out) = lead @ Output resp @ trail \<and>
     white_space lead \<and> white_space trail \<and>
     leading_space (Output resp) = 0 \<and> trailing_space (Output resp) = 0 \<and>
     Output resp = TrimSpace (if detected then decoded else string_of_bytes out)"
proof -
  obtain u where u: "isUTF16 out = Some u" using isUTF16_total by blast
  obtain t where t: "decodeUTF16 out = Some t" using decodeUTF16_total by blast
  let ?text = "if u then t else string_of_bytes out"
  from executeCommand_fields [OF assms u t] obtain resp where
    r: "executeCommand env req = Some resp" and o: "Output resp = TrimSpace ?text" by auto
  obtain lead trail where
    "?text = lead @ TrimSpace ?text @ trail" and "white_space lead" and "white_space trail"
    using TrimSpace_removed [of ?text] by blast
  with r o u t TrimSpace_trimmed [of ?text] show ?thesis
    by (intro exI [of _ resp] exI [of _ u] exI [of _ t] exI [of _ lead] exI [of _ trail]) simp
qed

text \<open>
  Two runs: the bytes of \<open>" hi\r\n"\<close>, not UTF-16, and the same text without the leading
  space in UTF-16 little-endian behind its mark. Both give the output \<open>hi\<close>.
\<close>

theorem output_is_trimmed_normalization_witness:
  "CombinedOutput
     \<lparr>GOOS = ''windows'', CombinedOutput = (\<lambda>cmd. ([0x20, 0x68, 0x69, 0x0D, 0x0A], None)),
      Milliseconds = 12\<rparr>
     (fst (dispatch ''windows''
        \<lparr>Command = ''echo hi'', Type = ''cmd'', Headless = True, Verbose = False,
         PersistWindow = False\<rparr>))
     = ([0x20, 0x68, 0x69, 0x0D, 0x0A], None) \<and>
   executeCommand
     \<lparr>GOOS = ''windows'', CombinedOutput = (\<lambda>cmd. ([0x20, 0x68, 0x69, 0x0D, 0x0A], None)),
      Milliseconds = 12\<rparr>
     \<lparr>Command = ''echo hi'', Type = ''cmd'', Headless = True, Verbose = False,
      PersistWindow = False\<rparr>
     = Some \<lparr>Output = ''hi'', Error = [], Duration = 12, Debug = []\<rparr> \<and>
   string_of_bytes [0x20, 0x68, 0x69, 0x0D, 0x0A] = '' '' @ ''hi'' @ [CHR 0x0D, CHR 0x0A] \<and>
   white_space '' '' \<and> white_space [CHR 0x0D, CHR 0x0A] \<and>
   CombinedOutput
     \<lparr>GOOS = ''windows'',
      CombinedOutput = (\<lambda>cmd. ([0xFF, 0xFE, 0x68, 0x00, 0x69, 0x00, 0x0D, 0x00, 0x0A, 0x00], None)),
      Milliseconds = 12\<rparr>
     (fst (dispatch ''windows''
        \<lparr>Command = ''echo hi'', Type = ''powershell'', Headless = True, Verbose = False,
         PersistWindow = False\<rparr>))
     = ([0xFF, 0xFE, 0x68, 0x00, 0x69, 0x00, 0x0D, 0x00, 0x0A, 0x00], None) \<and>
   executeCommand
     \<lparr>GOOS = ''windows'',
      CombinedOutput = (\<lambda>cmd. ([0xFF, 0xFE, 0x68, 0x00, 0x69, 0x00, 0x0D, 0x00, 0x0A, 0x00], None)),
      Milliseconds = 12\<rparr>
     \<lparr>Command = ''echo hi'', Type = ''powershell'', Headless = True, Verbose = False,
      PersistWindow = False\<rparr>
     = Some \<lparr>Output = ''hi'', Error = [], Duration = 12, Debug = []\<rparr>"
  using
    output_is_trimmed_normalization [of
      "\<lparr>GOOS = ''windows'', CombinedOutput = (\<lambda>cmd. ([0x20, 0x68, 0x69, 0x0D, 0x0A], None)),
        Milliseconds = 12\<rparr>"
      "\<lparr>Command = ''echo hi'', Type = ''cmd'', Headless = True, Verbose = False,
        PersistWindow = False\<rparr>"
      "[0x20, 0x68, 0x69, 0x0D, 0x0A]" None]
    output_is_trimmed_normalization [of
      "\<lparr>GOOS = ''windows'',
        CombinedOutput = (\<lambda>cmd. ([0xFF, 0xFE, 0x68, 0x00, 0x69, 0x00, 0x0D, 0x00, 0x0A, 0x00], None)),
        Milliseconds = 12\<rparr>"
      "\<lparr>Command = ''echo hi'', Type = ''powershell'', Headless = True, Verbose = False,
        PersistWindow = False\<rparr>"
      "[0xFF, 0xFE, 0x68, 0x00, 0x69, 0x00, 0x0D, 0x00, 0x0A, 0x00]" None]
  by (simp add: executeCommand_def executeCommand_run_def dispatch_def exec_Command_def Let_def
        processOutput_def isUTF16_unfold decodeUTF16_unfold unit_at_def upt_rec without_mark_def
        string_of_runes_def AppendRune_def replacementChar_def
        string_of_bytes_def char_of_byte_def char_of_def bit_0 bit_simps
        TrimSpace_def TrimLeft.simps TrimRight.simps leading_space_def trailing_space_def
        space_encodings_def suffix_to_prefix white_space.simps)

section \<open>Properties of reading a request\<close>

text \<open>
  Claim C1 fails on the code. A valid JSON line with neither \<open>type\<close> nor \<open>headless\<close> is
  read as a request with \<open>Headless = false\<close>, and on Windows it is run in a new console
  window, whereas the same line with \<open>type = "cmd"\<close> and \<open>headless = true\<close> is run hidden.
  Only a line that is not JSON gets the defaults \<open>Type = "cmd"\<close> and \<open>Headless = true\<close>.
\<close>

theorem absent_headless_runs_headed:
  "read_request line
     (Object \<lparr>command = Some ''echo hi'', type = None, headless = None, verbose = None,
              persist_window = None\<rparr>)
     = \<lparr>Command = ''echo hi'', Type = [], Headless = False, Verbose = False,
        PersistWindow = False\<rparr> \<and>
   fst (dispatch ''windows'' (read_request line
     (Object \<lparr>command = Some ''echo hi'', type = None, headless = None, verbose = None,
              persist_window = None\<rparr>)))
     = \<lparr>Args = [''cmd'', ''/C'', ''start'', ''cmd'', ''/K'', ''echo hi''],
        Attr = Some \<lparr>HideWindow = False, CreationFlags = CREATE_NEW_CONSOLE\<rparr>\<rparr> \<and>
   fst (dispatch ''windows'' (read_request line
     (Object \<lparr>command = Some ''echo hi'', type = Some ''cmd'', headless = Some True,
              verbose = None, persist_window = None\<rparr>)))
     = \<lparr>Args = [''cmd'', ''/C'', ''echo hi''],
        Attr = Some \<lparr>HideWindow = True, CreationFlags = 0\<rparr>\<rparr> \<and>
   read_request ''echo hi'' Invalid
     = \<lparr>Command = ''echo hi'', Type = ''cmd'', Headless = True, Verbose = False,
        PersistWindow = False\<rparr>"
  by (simp add: read_request_def Unmarshal_def store_members_def zero_Request_def dispatch_def Let_def
        exec_Command_def)

text \<open>
  A line whose object has a member of the wrong type is run with the fallback settings,
  and keeps what the other members stored: here \<open>verbose\<close>.
\<close>

lemma mistyped_member_keeps_stored_fields:
  "read_request line
     (Mistyped \<lparr>command = None, type = None, headless = None, verbose = Some True,
                persist_window = None\<rparr>)
     = \<lparr>Command = line, Type = ''cmd'', Headless = True, Verbose = True,
        PersistWindow = False\<rparr>"
  by (simp add: read_request_def Unmarshal_def store_members_def zero_Request_def)

section \<open>Two calls computed\<close>

lemma TrimSpace_example_ascii: "TrimSpace [CHR 0x20, CHR ''h'', CHR ''i'', CHR 0x0D, CHR 0x0A] = ''hi''"
  by (simp add: TrimSpace_def TrimLeft.simps TrimRight.simps leading_space_def trailing_space_def
        space_encodings_def suffix_to_prefix)

lemma TrimSpace_example_unicode: "TrimSpace [CHR 0xC2, CHR 0xA0, CHR ''h'', CHR 0x20, CHR ''i'', CHR 0xE2, CHR 0x80, CHR 0xA8] = ''h i''"
  by (simp add: TrimSpace_def TrimLeft.simps TrimRight.simps leading_space_def trailing_space_def
        space_encodings_def suffix_to_prefix)

lemma fmt_d_examples: "fmt_d 12 = ''12''" "fmt_d (-7) = ''-7''" "fmt_d 0 = ''0''"
  by (simp_all add: fmt_d_def digits.simps char_of_def bit_0 bit_simps)

lemma executeCommand_example_quiet:
  "executeCommand
     \<lparr>GOOS = ''windows'', CombinedOutput = (\<lambda>cmd. ([0x68, 0x69, 0x0D, 0x0A], None)), Milliseconds = 12\<rparr>
     \<lparr>Command = ''echo hi'', Type = ''cmd'', Headless = True, Verbose = False, PersistWindow = False\<rparr>
   = Some \<lparr>Output = ''hi'', Error = [], Duration = 12, Debug = []\<rparr>"
  by (simp add: executeCommand_def executeCommand_run_def dispatch_def exec_Command_def Let_def
        processOutput_def isUTF16_unfold string_of_bytes_def char_of_byte_def char_of_def bit_0
        TrimSpace_def TrimLeft.simps TrimRight.simps leading_space_def trailing_space_def
        space_encodings_def suffix_to_prefix)

lemma executeCommand_example_verbose:
  "executeCommand
     \<lparr>GOOS = ''windows'', CombinedOutput = (\<lambda>cmd. ([0x68, 0x69, 0x0D, 0x0A], Some ''exit status 1'')), Milliseconds = 12\<rparr>
     \<lparr>Command = ''echo hi'', Type = ''cmd'', Headless = True, Verbose = True, PersistWindow = False\<rparr>
   = Some \<lparr>Output = ''hi'', Error = ''exit status 1'', Duration = 12,
       Debug = ''Executing command: echo hi\<newline>Type: cmd, Headless: true, PersistWindow: false\<newline>Running in headless mode (window hidden)\<newline>Command args: [cmd /C echo hi]\<newline>Using standard UTF-8 processing\<newline>Command failed with error: exit status 1\<newline>Execution completed in 12ms\<newline>''\<rparr>"
  by (simp add: executeCommand_def executeCommand_run_def dispatch_def exec_Command_def Let_def
        processOutput_def isUTF16_unfold string_of_bytes_def char_of_byte_def char_of_def bit_0
        TrimSpace_def TrimLeft.simps TrimRight.simps leading_space_def trailing_space_def
        space_encodings_def suffix_to_prefix fmt_t_def fmt_v_def fmt_d_def digits.simps bit_simps)

end
